theory Spec2Isabelle
  imports Complex_Main
begin

section \<open>Strings and the platform's path functions\<close>

text \<open>
  The server is TypeScript on Node.js. Strings are modelled as \<^typ>\<open>string\<close>; the
  identifiers and paths the security utilities accept are ASCII. The functions of Node's
  \<^verbatim>\<open>path\<close> module are modelled for POSIX (\<^verbatim>\<open>path.sep\<close> is the slash), following the
  structure of \<^verbatim>\<open>path.posix\<close>: \<^verbatim>\<open>normalizeString\<close> walks the slash-separated segments,
  drops empty segments and \<^verbatim>\<open>.\<close>, and lets \<^verbatim>\<open>..\<close> remove the segment before it (or
  keeps it when nothing is left to remove and the path may climb above its start).
\<close>

definition sep :: string where
  "sep = ''/''"

definition backslash :: char where
  "backslash = CHR 0x5C"

definition nul :: char where
  "nul = CHR 0x00"

text \<open>\<^verbatim>\<open>String.prototype.split\<close> on a one-character separator.\<close>

fun splitOn :: "char \<Rightarrow> string \<Rightarrow> string list" where
  "splitOn c [] = [[]]"
| "splitOn c (x # xs) =
     (if x = c then [] # splitOn c xs
      else (case splitOn c xs of
              [] \<Rightarrow> [[x]]
            | s # ss \<Rightarrow> (x # s) # ss))"

text \<open>\<^verbatim>\<open>Array.prototype.join\<close>.\<close>

fun joinWith :: "string \<Rightarrow> string list \<Rightarrow> string" where
  "joinWith s [] = []"
| "joinWith s [x] = x"
| "joinWith s (x # y # ys) = x @ s @ joinWith s (y # ys)"

text \<open>\<^verbatim>\<open>String.prototype.includes\<close> and \<^verbatim>\<open>String.prototype.startsWith\<close>.\<close>

fun startsWith :: "string \<Rightarrow> string \<Rightarrow> bool" where
  "startsWith s [] = True"
| "startsWith [] (p # ps) = False"
| "startsWith (c # cs) (p # ps) = (c = p \<and> startsWith cs ps)"

fun includesStr :: "string \<Rightarrow> string \<Rightarrow> bool" where
  "includesStr [] t = (t = [])"
| "includesStr (c # cs) t = (startsWith (c # cs) t \<or> includesStr cs t)"

text \<open>
  One step of \<^verbatim>\<open>normalizeString\<close>: the segments kept so far are held last-first.
\<close>

fun normStep :: "bool \<Rightarrow> string list \<Rightarrow> string \<Rightarrow> string list" where
  "normStep allowAboveRoot res seg =
     (if seg = [] \<or> seg = ''.'' then res
      else if seg = ''..'' then
        (case res of
           [] \<Rightarrow> if allowAboveRoot then [''..''] else []
         | lastSeg # rest \<Rightarrow>
             if lastSeg = ''..'' then (if allowAboveRoot then ''..'' # res else res)
             else rest)
      else seg # res)"

declare normStep.simps [simp del]

definition normSegs :: "bool \<Rightarrow> string list \<Rightarrow> string list" where
  "normSegs allowAboveRoot segs = rev (foldl (normStep allowAboveRoot) [] segs)"

definition normalizeString :: "string \<Rightarrow> bool \<Rightarrow> string" where
  "normalizeString path allowAboveRoot =
     joinWith ''/'' (normSegs allowAboveRoot (splitOn CHR ''/'' path))"

text \<open>\<^verbatim>\<open>path.normalize\<close>.\<close>

definition pathNormalize :: "string \<Rightarrow> string" where
  "pathNormalize path =
     (if path = [] then ''.''
      else
        let isAbsolute = (hd path = CHR ''/'');
            trailingSeparator = (last path = CHR ''/'');
            p = normalizeString path (\<not> isAbsolute)
        in if p = [] then
             (if isAbsolute then ''/'' else if trailingSeparator then ''./'' else ''.'')
           else
             (let p' = (if trailingSeparator then p @ ''/'' else p)
              in if isAbsolute then CHR ''/'' # p' else p'))"

text \<open>\<^verbatim>\<open>path.join\<close>: the non-empty arguments joined by a slash, then normalised.\<close>

definition pathJoin :: "string list \<Rightarrow> string" where
  "pathJoin args =
     (let parts = filter (\<lambda>a. a \<noteq> []) args
      in if parts = [] then ''.'' else pathNormalize (joinWith ''/'' parts))"

text \<open>
  \<^verbatim>\<open>path.resolve\<close> of one argument; \<open>cwd\<close> is what \<^verbatim>\<open>process.cwd()\<close> returns.
\<close>

definition pathResolve :: "string \<Rightarrow> string \<Rightarrow> string" where
  "pathResolve cwd p =
     (let absP = (p \<noteq> [] \<and> hd p = CHR ''/'');
          r0 = (if p = [] then [] else p @ ''/'');
          r1 = (if absP \<or> cwd = [] then r0 else cwd @ ''/'' @ r0);
          resolvedAbsolute = (absP \<or> (cwd \<noteq> [] \<and> hd cwd = CHR ''/''));
          n = normalizeString r1 (\<not> resolvedAbsolute)
      in if resolvedAbsolute then CHR ''/'' # n
         else if n \<noteq> [] then n else ''.'')"

section \<open>Security utilities\<close>

record ValidationResult =
  isValid :: bool
  sanitizedValue :: "string option"
  error :: "string option"

definition invalid :: "string \<Rightarrow> ValidationResult" where
  "invalid msg = \<lparr>isValid = False, sanitizedValue = None, error = Some msg\<rparr>"

definition valid :: "string \<Rightarrow> ValidationResult" where
  "valid v = \<lparr>isValid = True, sanitizedValue = Some v, error = None\<rparr>"

text \<open>
  The replacement \<^verbatim>\<open>.replace(/^(\.\.[\\/\\])+/, '')\<close>: every leading repetition of two dots
  followed by a slash or a backslash is removed.
\<close>

fun stripTraversal :: "string \<Rightarrow> string" where
  "stripTraversal (a # b # c # rest) =
     (if a = CHR ''.'' \<and> b = CHR ''.'' \<and> (c = CHR ''/'' \<or> c = backslash)
      then stripTraversal rest else a # b # c # rest)"
| "stripTraversal s = s"

text \<open>The character class of \<^verbatim>\<open>/^[a-zA-Z0-9\-_.]+$/\<close>.\<close>

definition allowedChar :: "char \<Rightarrow> bool" where
  "allowedChar c =
     (c \<in> set ''abcdefghijklmnopqrstuvwxyzABCDEFGHIJKLMNOPQRSTUVWXYZ0123456789-_.'')"

definition allowedPattern :: "string \<Rightarrow> bool" where
  "allowedPattern s = (s \<noteq> [] \<and> list_all allowedChar s)"

text \<open>Decimal rendering of a number inside a template literal.\<close>

function showNat :: "nat \<Rightarrow> string" where
  "showNat n =
     (if n < 10 then [char_of (48 + n)]
      else showNat (n div 10) @ [char_of (48 + n mod 10)])"
  by pat_completeness auto
termination
  by (relation "measure id") auto

declare showNat.simps [simp del]

definition showInt :: "int \<Rightarrow> string" where
  "showInt n = (if n < 0 then ''-'' @ showNat (nat (- n)) else showNat (nat n))"

text \<open>
  \<^verbatim>\<open>sanitizeAndValidatePath(userInput, maxLength)\<close>. The empty string is falsy, so the
  first test rejects it; the argument is typed \<^verbatim>\<open>string\<close>.
\<close>

definition sanitizeAndValidatePath :: "string \<Rightarrow> int \<Rightarrow> ValidationResult" where
  "sanitizeAndValidatePath userInput maxLength =
     (if userInput = [] then invalid ''Input must be a non-empty string''
      else if int (length userInput) > maxLength then
        invalid (''Input exceeds maximum length of '' @ showInt maxLength @ '' characters'')
      else
        let normalized = stripTraversal (pathNormalize userInput)
        in if includesStr normalized ''..'' \<or> includesStr normalized ''/''
              \<or> includesStr normalized [backslash] \<or> includesStr normalized [nul]
           then invalid ''Invalid characters detected in path''
           else if \<not> allowedPattern normalized then
             invalid (''Path contains invalid characters. Only alphanumeric, hyphens, ''
                      @ ''underscores, and dots are allowed'')
           else valid normalized)"

text \<open>\<^verbatim>\<open>isPathWithinBase(requestedPath, basePath)\<close>.\<close>

definition isPathWithinBase :: "string \<Rightarrow> string \<Rightarrow> string \<Rightarrow> bool" where
  "isPathWithinBase cwd requestedPath basePath =
     (let resolvedBase = pathResolve cwd basePath;
          resolvedRequested = pathResolve cwd requestedPath
      in startsWith resolvedRequested (resolvedBase @ sep) \<or> resolvedRequested = resolvedBase)"

section \<open>Request arguments and errors\<close>

text \<open>
  Tool arguments arrive as an untyped object (\<^verbatim>\<open>any\<close>); the casts to the argument
  interfaces are erased at run time. An object is a map from property names to values; the
  values the input schemas admit are strings, numbers and arrays of strings.
\<close>

datatype jsval = JString string | JNumber int | JArray "string list"

type_synonym jsobject = "string \<rightharpoonup> jsval"

text \<open>Truthiness, and the conversion a template literal applies.\<close>

fun truthy :: "jsval option \<Rightarrow> bool" where
  "truthy None = False"
| "truthy (Some (JString s)) = (s \<noteq> [])"
| "truthy (Some (JNumber n)) = (n \<noteq> 0)"
| "truthy (Some (JArray xs)) = True"

fun toStr :: "jsval option \<Rightarrow> string" where
  "toStr None = ''undefined''"
| "toStr (Some (JString s)) = s"
| "toStr (Some (JNumber n)) = showInt n"
| "toStr (Some (JArray xs)) = joinWith '','' xs"

datatype ErrorCode = InvalidParams | InvalidRequest | InternalError

datatype McpError = McpError (code: ErrorCode) (message: string)

definition sq :: string where
  "sq = [CHR 0x27]"

definition nl :: string where
  "nl = [CHR 0x0A]"

text \<open>\<^verbatim>\<open>validateSearchDocsArgs\<close>, \<^verbatim>\<open>validateCatalystComponentArgs\<close>, \<^verbatim>\<open>validatePatternArgs\<close>:
  \<open>None\<close> when the arguments pass, the thrown error otherwise.\<close>

definition controlChar :: "char \<Rightarrow> bool" where
  "controlChar c = ((of_char c :: nat) \<le> 31 \<or> (of_char c :: nat) = 127)"

definition validateSearchDocsArgs :: "jsobject \<Rightarrow> McpError option" where
  "validateSearchDocsArgs args =
     (case args ''query'' of
        Some (JString query) \<Rightarrow>
          if query = [] then
            Some (McpError InvalidParams ''Missing or invalid 'query' argument'')
          else if length query < 2 then
            Some (McpError InvalidParams ''Search query must be at least 2 characters'')
          else if length query > 100 then
            Some (McpError InvalidParams
                    ''Search query exceeds maximum length of 100 characters'')
          else if includesStr query [nul] \<or> list_ex controlChar query then
            Some (McpError InvalidParams ''Search query contains invalid characters'')
          else
            (case args ''limit'' of
               None \<Rightarrow> None
             | Some (JNumber n) \<Rightarrow>
                 if n < 1 \<or> n > 20 then
                   Some (McpError InvalidParams ''Limit must be a number between 1 and 20'')
                 else None
             | Some _ \<Rightarrow>
                 Some (McpError InvalidParams ''Limit must be a number between 1 and 20''))
      | _ \<Rightarrow> Some (McpError InvalidParams ''Missing or invalid 'query' argument''))"

definition validateCatalystComponentArgs :: "jsobject \<Rightarrow> McpError option" where
  "validateCatalystComponentArgs args =
     (case args ''component_name'' of
        Some (JString component_name) \<Rightarrow>
          if component_name = [] then
            Some (McpError InvalidParams ''Missing or invalid 'component_name' argument'')
          else
            let validation = sanitizeAndValidatePath component_name 50
            in if \<not> isValid validation then
                 Some (McpError InvalidParams
                   (''Invalid component_name: '' @
                    (case error validation of None \<Rightarrow> ''undefined'' | Some e \<Rightarrow> e)))
               else None
      | _ \<Rightarrow> Some (McpError InvalidParams ''Missing or invalid 'component_name' argument''))"

definition allowedCategories :: "string list" where
  "allowedCategories = [''layouts'', ''pages'', ''features'']"

definition validatePatternArgs :: "jsobject \<Rightarrow> McpError option" where
  "validatePatternArgs args =
     (case args ''category'' of
        Some (JString category) \<Rightarrow>
          if category = [] then
            Some (McpError InvalidParams ''Missing or invalid 'category' argument'')
          else
            (case args ''pattern_name'' of
               Some (JString pattern_name) \<Rightarrow>
                 if pattern_name = [] then
                   Some (McpError InvalidParams
                           ''Missing or invalid 'pattern_name' argument'')
                 else if category \<notin> set allowedCategories then
                   Some (McpError InvalidParams
                     (''Invalid category. Must be one of: '' @
                      joinWith '', '' allowedCategories))
                 else
                   let validation = sanitizeAndValidatePath pattern_name 50
                   in if \<not> isValid validation then
                        Some (McpError InvalidParams
                          (''Invalid pattern_name: '' @
                           (case error validation of None \<Rightarrow> ''undefined''
                            | Some e \<Rightarrow> e)))
                      else None
             | _ \<Rightarrow> Some (McpError InvalidParams
                              ''Missing or invalid 'pattern_name' argument''))
      | _ \<Rightarrow> Some (McpError InvalidParams ''Missing or invalid 'category' argument''))"

text \<open>
  \<^verbatim>\<open>validateToolInput(toolName, args)\<close>. A missing argument object is \<open>None\<close>. Every tool
  name without a case of its own, \<^verbatim>\<open>get_library_docs\<close> among them, takes the default
  branch, which validates nothing.
\<close>

definition validateToolInput :: "string \<Rightarrow> jsobject option \<Rightarrow> McpError option" where
  "validateToolInput toolName args =
     (case args of
        None \<Rightarrow> Some (McpError InvalidParams (''Invalid arguments for tool '' @ toolName))
      | Some a \<Rightarrow>
          if toolName = ''search_nextjs_docs'' \<or> toolName = ''search_tailwind_docs''
            then validateSearchDocsArgs a
          else if toolName = ''get_catalyst_component'' then validateCatalystComponentArgs a
          else if toolName = ''get_pattern'' then validatePatternArgs a
          else None)"

section \<open>Fetch-by-identifier handlers\<close>

text \<open>
  The file system is a function from a path to what \<^verbatim>\<open>fs.readFile\<close> yields there: the
  content, or an error carrying its \<^verbatim>\<open>code\<close>. The world also records every path handed to
  \<^verbatim>\<open>fs.readFile\<close>, in order, so that the reads a handler performs can be counted. Audit
  logging is left out.
\<close>

datatype fsError = FsError (errCode: string)

record world =
  files :: "string \<Rightarrow> fsError + string"
  readLog :: "string list"

definition readFile :: "world \<Rightarrow> string \<Rightarrow> (fsError + string) \<times> world" where
  "readFile w p = (files w p, w\<lparr>readLog := readLog w @ [p]\<rparr>)"

text \<open>
  The environment of the server: the working directory behind \<^verbatim>\<open>process.cwd()\<close>, and
  \<^verbatim>\<open>ErrorHandler.formatSafeErrorMessage\<close>, whose source is not part of the files at hand
  and is taken as a parameter.
\<close>

record env =
  cwd :: string
  formatSafeErrorMessage :: "fsError \<Rightarrow> string \<Rightarrow> string"

definition catalystComponentsPath :: "env \<Rightarrow> string" where
  "catalystComponentsPath e = pathJoin [cwd e, ''content'', ''components'', ''catalyst'']"

definition patternsPath :: "env \<Rightarrow> string" where
  "patternsPath e = pathJoin [cwd e, ''content'', ''patterns'']"

definition libraryDocsPath :: "env \<Rightarrow> string" where
  "libraryDocsPath e = pathJoin [cwd e, ''content'', ''docs'', ''libraries'']"

text \<open>The paths the handlers assemble: \<^verbatim>\<open>path.join\<close> of the base directory and the
  argument as received, with the extension appended.\<close>

definition componentPath :: "env \<Rightarrow> jsobject \<Rightarrow> string" where
  "componentPath e args =
     pathJoin [catalystComponentsPath e, toStr (args ''component_name'') @ ''.tsx'']"

definition patternPath :: "env \<Rightarrow> jsobject \<Rightarrow> string" where
  "patternPath e args =
     pathJoin [patternsPath e, toStr (args ''category''),
               toStr (args ''pattern_name'') @ ''.md'']"

definition libraryPath :: "env \<Rightarrow> jsobject \<Rightarrow> string" where
  "libraryPath e args =
     pathJoin [libraryDocsPath e, toStr (args ''library_name'') @ ''.txt'']"

text \<open>
  The three handlers. Each validates, joins the \<^emph>\<open>raw\<close> argument onto its base directory
  and calls \<^verbatim>\<open>fs.readFile\<close>; the \<^verbatim>\<open>catch\<close> block tests \<^verbatim>\<open>error.code === 'ENOENT'\<close> first, then
  rethrows an \<^verbatim>\<open>McpError\<close>, then wraps everything else.
\<close>

definition get_catalyst_component ::
    "env \<Rightarrow> jsobject \<Rightarrow> world \<Rightarrow> (McpError + string) \<times> world" where
  "get_catalyst_component e args w =
     (case validateToolInput ''get_catalyst_component'' (Some args) of
        Some err \<Rightarrow> (Inl err, w)
      | None \<Rightarrow>
          let (r, w') = readFile w (componentPath e args)
          in (case r of
                Inr content \<Rightarrow>
                  (Inr (''# Catalyst UI Component: '' @ toStr (args ''component_name'')
                        @ nl @ nl @ ''```typescript'' @ nl @ content @ nl @ ''```''), w')
              | Inl err \<Rightarrow>
                  if errCode err = ''ENOENT'' then
                    (Inl (McpError InvalidRequest
                       (''Catalyst component '' @ sq @ toStr (args ''component_name'') @ sq
                        @ '' not found. Use list_catalyst_components to see available ''
                        @ ''components.'')), w')
                  else
                    (Inl (McpError InternalError
                       (formatSafeErrorMessage e err ''get_catalyst_component'')), w')))"

definition get_pattern ::
    "env \<Rightarrow> jsobject \<Rightarrow> world \<Rightarrow> (McpError + string) \<times> world" where
  "get_pattern e args w =
     (case validateToolInput ''get_pattern'' (Some args) of
        Some err \<Rightarrow> (Inl err, w)
      | None \<Rightarrow>
          let (r, w') = readFile w (patternPath e args)
          in (case r of
                Inr content \<Rightarrow> (Inr content, w')
              | Inl err \<Rightarrow>
                  if errCode err = ''ENOENT'' then
                    (Inl (McpError InvalidRequest
                       (''Pattern '' @ sq @ toStr (args ''pattern_name'') @ sq
                        @ '' not found in category '' @ sq @ toStr (args ''category'') @ sq
                        @ ''. Use list_patterns to see available patterns.'')), w')
                  else
                    (Inl (McpError InternalError
                       (formatSafeErrorMessage e err ''get_pattern'')), w')))"

definition get_library_docs ::
    "env \<Rightarrow> jsobject \<Rightarrow> world \<Rightarrow> (McpError + string) \<times> world" where
  "get_library_docs e args w =
     (case validateToolInput ''get_library_docs'' (Some args) of
        Some err \<Rightarrow> (Inl err, w)
      | None \<Rightarrow>
          let (r, w') = readFile w (libraryPath e args)
          in (case r of
                Inr content \<Rightarrow> (Inr content, w')
              | Inl err \<Rightarrow>
                  if errCode err = ''ENOENT'' then
                    (Inl (McpError InvalidRequest
                       (''Library documentation for '' @ sq @ toStr (args ''library_name'')
                        @ sq @ '' not found. Use list_library_docs to see available ''
                        @ ''libraries.'')), w')
                  else
                    (Inl (McpError InternalError
                       (formatSafeErrorMessage e err ''get_library_docs'')), w')))"

section \<open>Recommendation scorer\<close>

text \<open>
  The parsed template data: the starter kits in file order and, under
  \<^verbatim>\<open>questionnaire.matching\<close>, a matching profile per kit id. A profile property that is
  absent is \<open>None\<close>. Scores are JavaScript numbers; they are modelled as exact rationals
  and \<^verbatim>\<open>Math.round\<close> as rounding half up.
\<close>

record StarterKit =
  kitId :: string
  kitName :: string
  kitDescription :: string
  kitFeatures :: "string list"
  kitComplexity :: string
  kitAnimations :: string

record MatchData =
  purpose :: "string list option"
  colorPreference :: "string list option"
  animations :: "string list option"
  features :: "string list option"
  complexity :: "string list option"

record TemplateData =
  starterKits :: "StarterKit list"
  matching :: "string \<rightharpoonup> MatchData"

record Recommendation =
  kit :: StarterKit
  score :: int
  reasons :: "string list"

definition mathRound :: "rat \<Rightarrow> int" where
  "mathRound x = \<lfloor>x + 1 / 2\<rfloor>"

text \<open>\<^verbatim>\<open>arr.includes(v)\<close> on an array of strings: only a string can be strictly equal to
  an element.\<close>

fun arrayIncludes :: "string list \<Rightarrow> jsval option \<Rightarrow> bool" where
  "arrayIncludes arr (Some (JString s)) = (s \<in> set arr)"
| "arrayIncludes arr _ = False"

text \<open>The test \<^verbatim>\<open>criteria.x && matchData.x && matchData.x.includes(criteria.x)\<close>.\<close>

definition dimensionMatches :: "jsval option \<Rightarrow> string list option \<Rightarrow> bool" where
  "dimensionMatches c m =
     (truthy c \<and> (case m of None \<Rightarrow> False | Some arr \<Rightarrow> arrayIncludes arr c))"

text \<open>
  The body of the loop for one kit whose profile exists: the running score and reasons
  after the five blocks. A non-empty string in \<^verbatim>\<open>criteria.features\<close> has a positive
  \<^verbatim>\<open>length\<close> and no \<^verbatim>\<open>filter\<close>, so the feature block throws a \<^verbatim>\<open>TypeError\<close>.
\<close>

definition featureBlock ::
    "jsobject \<Rightarrow> MatchData \<Rightarrow> rat \<times> string list \<Rightarrow> string + rat \<times> string list" where
  "featureBlock criteria matchData acc =
     (case criteria ''features'' of
        Some (JArray fs) \<Rightarrow>
          (case features matchData of
             Some mf \<Rightarrow>
               if fs \<noteq> [] then
                 let matchedFeatures = filter (\<lambda>f. f \<in> set mf) fs;
                     featureScore =
                       (of_nat (length matchedFeatures) / of_nat (length fs)) * 15
                 in Inr (fst acc + featureScore,
                         if length matchedFeatures > 0 then
                           snd acc @ [''Includes '' @ showNat (length matchedFeatures)
                                      @ '' of your requested features'']
                         else snd acc)
               else Inr acc
           | None \<Rightarrow> Inr acc)
      | Some (JString s) \<Rightarrow>
          if s \<noteq> [] \<and> features matchData \<noteq> None then
            Inl ''TypeError: criteria.features.filter is not a function''
          else Inr acc
      | _ \<Rightarrow> Inr acc)"

definition scoreKit :: "jsobject \<Rightarrow> MatchData \<Rightarrow> string + rat \<times> string list" where
  "scoreKit criteria matchData =
     (let a0 = (0, []);
          a1 = (if dimensionMatches (criteria ''purpose'') (purpose matchData) then
                  (fst a0 + 40, snd a0 @ [''Perfect match for ''
                     @ toStr (criteria ''purpose'') @ '' use case''])
                else a0);
          a2 = (if dimensionMatches (criteria ''colorPreference'')
                     (colorPreference matchData) then
                  (fst a1 + 15, snd a1 @ [''Matches '' @ toStr (criteria ''colorPreference'')
                     @ '' color scheme preference''])
                else a1);
          a3 = (if dimensionMatches (criteria ''animations'') (animations matchData) then
                  (fst a2 + 20, snd a2 @ [''Has '' @ toStr (criteria ''animations'')
                     @ '' animation level''])
                else a2)
      in case featureBlock criteria matchData a3 of
           Inl err \<Rightarrow> Inl err
         | Inr a4 \<Rightarrow>
             Inr (if dimensionMatches (criteria ''complexity'') (complexity matchData) then
                    (fst a4 + 10, snd a4 @ [''Matches '' @ toStr (criteria ''complexity'')
                       @ '' complexity level''])
                  else a4))"

text \<open>The \<^verbatim>\<open>for\<close> loop over the kits, with the recommendations pushed so far.\<close>

fun scoreKits ::
    "jsobject \<Rightarrow> (string \<rightharpoonup> MatchData) \<Rightarrow> StarterKit list \<Rightarrow> Recommendation list
     \<Rightarrow> string + Recommendation list" where
  "scoreKits criteria m [] recommendations = Inr recommendations"
| "scoreKits criteria m (k # kits) recommendations =
     (case m (kitId k) of
        None \<Rightarrow> scoreKits criteria m kits recommendations
      | Some matchData \<Rightarrow>
          (case scoreKit criteria matchData of
             Inl err \<Rightarrow> Inl err
           | Inr (s, rs) \<Rightarrow>
               if s > 0 then
                 scoreKits criteria m kits
                   (recommendations @ [\<lparr>kit = k, score = mathRound s, reasons = rs\<rparr>])
               else scoreKits criteria m kits recommendations))"

text \<open>
  \<^verbatim>\<open>calculateRecommendations(data, criteria)\<close>. \<^verbatim>\<open>Array.prototype.sort\<close> is stable; with the
  comparator \<^verbatim>\<open>b.score - a.score\<close> it is a stable sort on the negated score.
\<close>

definition calculateRecommendations ::
    "TemplateData \<Rightarrow> jsobject \<Rightarrow> string + Recommendation list" where
  "calculateRecommendations data criteria =
     (case scoreKits criteria (matching data) (starterKits data) [] of
        Inl err \<Rightarrow> Inl err
      | Inr recommendations \<Rightarrow> Inr (sort_key (\<lambda>r. - score r) recommendations))"

text \<open>
  The recommendation sequence each of the two handlers computes from the parsed template
  data: \<^verbatim>\<open>recommend_template\<close> hands its arguments over as they are,
  \<^verbatim>\<open>answer_questionnaire\<close> first copies five properties of \<^verbatim>\<open>args.answers\<close> into a fresh
  criteria object.
\<close>

definition recommend_template ::
    "TemplateData \<Rightarrow> jsobject \<Rightarrow> string + Recommendation list" where
  "recommend_template data args = calculateRecommendations data args"

definition questionnaireCriteria :: "jsobject \<Rightarrow> jsobject" where
  "questionnaireCriteria answers =
     (\<lambda>k. if k \<in> set [''purpose'', ''colorPreference'', ''animations'', ''features'',
                       ''complexity'']
          then answers k else None)"

definition answer_questionnaire ::
    "TemplateData \<Rightarrow> jsobject \<Rightarrow> string + Recommendation list" where
  "answer_questionnaire data answers =
     calculateRecommendations data (questionnaireCriteria answers)"

section \<open>Text search\<close>

text \<open>
  \<^verbatim>\<open>String.prototype.toLowerCase\<close> on ASCII text: the letters A to Z are mapped, every
  other character is kept.
\<close>

definition toLowerChar :: "char \<Rightarrow> char" where
  "toLowerChar c =
     (case map_of (zip ''ABCDEFGHIJKLMNOPQRSTUVWXYZ'' ''abcdefghijklmnopqrstuvwxyz'') c of
        Some l \<Rightarrow> l
      | None \<Rightarrow> c)"

definition toLowerCase :: "string \<Rightarrow> string" where
  "toLowerCase s = map toLowerChar s"

definition contextLines :: nat where
  "contextLines = 3"

definition lineMatches :: "string \<Rightarrow> string \<Rightarrow> bool" where
  "lineMatches queryLower line = includesStr (toLowerCase line) queryLower"

text \<open>
  The excerpt emitted for a match at line \<open>i\<close>: \<^verbatim>\<open>lines.slice(start, end)\<close> with
  \<^verbatim>\<open>start = Math.max(0, i - contextLines)\<close> (the subtraction on \<^typ>\<open>nat\<close> stops at 0) and
  \<^verbatim>\<open>end = Math.min(lines.length, i + contextLines + 1)\<close>, joined and fenced.
\<close>

definition excerptAt :: "string list \<Rightarrow> nat \<Rightarrow> string" where
  "excerptAt lines i =
     (let start = i - contextLines;
          end' = min (length lines) (i + contextLines + 1);
          excerpt = joinWith nl (take (end' - start) (drop start lines))
      in ''```'' @ nl @ excerpt @ nl @ ''```'')"

text \<open>
  The \<^verbatim>\<open>for\<close> loop of \<^verbatim>\<open>searchInContent\<close>: after a match \<open>i\<close> is advanced by
  \<^verbatim>\<open>contextLines\<close> and then by the loop's own increment.
\<close>

function searchLoop ::
    "string list \<Rightarrow> string \<Rightarrow> int \<Rightarrow> nat \<Rightarrow> string list \<Rightarrow> string list" where
  "searchLoop lines queryLower limit i results =
     (if i < length lines \<and> int (length results) < limit then
        (if lineMatches queryLower (lines ! i) then
           searchLoop lines queryLower limit (i + contextLines + 1)
             (results @ [excerptAt lines i])
         else searchLoop lines queryLower limit (i + 1) results)
      else results)"
  by pat_completeness auto
termination
  by (relation "measure (\<lambda>(lines, q, limit, i, results). length lines - i)")
     (auto simp: contextLines_def)

declare searchLoop.simps [simp del]

definition searchInContent :: "string \<Rightarrow> string \<Rightarrow> int \<Rightarrow> string list" where
  "searchInContent content query limit =
     searchLoop (splitOn CHR 0x0A content) (toLowerCase query) limit 0 []"

section \<open>A concrete server\<close>

text \<open>
  An environment and a file system to run the handlers on: the server runs in
  \<^verbatim>\<open>/srv\<close>, one component file exists, every other read fails with \<^verbatim>\<open>ENOENT\<close>.
\<close>

definition exampleEnv :: env where
  "exampleEnv = \<lparr>cwd = ''/srv'', formatSafeErrorMessage = (\<lambda>err tool. ''Internal error'')\<rparr>"

definition exampleWorld :: world where
  "exampleWorld =
     \<lparr>files = (\<lambda>p. if p = ''/srv/content/components/catalyst/button.tsx''
                     then Inr ''export function Button() {}''
                   else if p = ''/srv/content/components/x.tsx''
                          \<or> p = ''/srv/content/x.txt''
                     then Inr ''outside''
                   else Inl (FsError ''ENOENT'')),
      readLog = []\<rparr>"

definition exampleArgs :: jsobject where
  "exampleArgs =
     [''component_name'' \<mapsto> JString ''button'', ''category'' \<mapsto> JString ''pages'',
      ''pattern_name'' \<mapsto> JString ''hero-section'', ''library_name'' \<mapsto> JString ''clsx'']"

definition emptyWorld :: world where
  "emptyWorld = \<lparr>files = (\<lambda>p. Inl (FsError ''ENOENT'')), readLog = []\<rparr>"

section \<open>The scorer's result, stated per record\<close>

text \<open>
  What the specification describes record by record, for comparison with the loop: a kit
  contributes a scored result when it has a matching profile and the score accumulated by
  \<open>scoreKit\<close>, before rounding, is strictly positive; the result carries the rounded score.
\<close>

text \<open>
  The one way the scorer throws: \<^verbatim>\<open>criteria.features\<close> is a non-empty string (it has a
  positive \<^verbatim>\<open>length\<close> and no \<^verbatim>\<open>filter\<close>) and the loop reaches a kit whose profile has a
  \<^verbatim>\<open>features\<close> property.
\<close>

definition featuresIsNonEmptyString :: "jsobject \<Rightarrow> bool" where
  "featuresIsNonEmptyString criteria =
     (case criteria ''features'' of Some (JString s) \<Rightarrow> s \<noteq> [] | _ \<Rightarrow> False)"

definition hasFeatureProfile :: "TemplateData \<Rightarrow> StarterKit \<Rightarrow> bool" where
  "hasFeatureProfile data k =
     (case matching data (kitId k) of
        None \<Rightarrow> False
      | Some matchData \<Rightarrow> features matchData \<noteq> None)"

definition scorerThrows :: "TemplateData \<Rightarrow> jsobject \<Rightarrow> bool" where
  "scorerThrows data criteria =
     (featuresIsNonEmptyString criteria \<and> list_ex (hasFeatureProfile data) (starterKits data))"

definition typeError :: string where
  "typeError = ''TypeError: criteria.features.filter is not a function''"

definition scoredKit ::
    "jsobject \<Rightarrow> (string \<rightharpoonup> MatchData) \<Rightarrow> StarterKit \<Rightarrow> Recommendation option" where
  "scoredKit criteria m k =
     (case m (kitId k) of
        None \<Rightarrow> None
      | Some matchData \<Rightarrow>
          (case scoreKit criteria matchData of
             Inl err \<Rightarrow> None
           | Inr (s, rs) \<Rightarrow>
               if s > 0 then Some \<lparr>kit = k, score = mathRound s, reasons = rs\<rparr> else None))"

definition positivelyScored :: "TemplateData \<Rightarrow> jsobject \<Rightarrow> Recommendation list" where
  "positivelyScored data criteria =
     List.map_filter (scoredKit criteria (matching data)) (starterKits data)"

text \<open>No criterion of the request matches the profile.\<close>

definition noDimensionMatches :: "jsobject \<Rightarrow> MatchData \<Rightarrow> bool" where
  "noDimensionMatches criteria matchData =
     (\<not> dimensionMatches (criteria ''purpose'') (purpose matchData)
      \<and> \<not> dimensionMatches (criteria ''colorPreference'') (colorPreference matchData)
      \<and> \<not> dimensionMatches (criteria ''animations'') (animations matchData)
      \<and> \<not> dimensionMatches (criteria ''complexity'') (complexity matchData)
      \<and> (case (criteria ''features'', features matchData) of
            (Some (JArray fs), Some mf) \<Rightarrow> list_all (\<lambda>f. f \<notin> set mf) fs
          | _ \<Rightarrow> True))"

text \<open>The criteria of the specification's example, and a kit whose profile matches them.\<close>

definition dashboardCriteria :: jsobject where
  "dashboardCriteria =
     [''purpose'' \<mapsto> JString ''dashboard'', ''colorPreference'' \<mapsto> JString ''professional'',
      ''features'' \<mapsto> JArray [''auth'', ''darkmode''],
      ''complexity'' \<mapsto> JString ''advanced'']"

definition dashboardKit :: StarterKit where
  "dashboardKit =
     \<lparr>kitId = ''admin'', kitName = ''Admin'', kitDescription = ''Dashboard starter'',
      kitFeatures = [''auth'', ''darkmode''], kitComplexity = ''advanced'',
      kitAnimations = ''minimal''\<rparr>"

definition dashboardProfile :: MatchData where
  "dashboardProfile =
     \<lparr>purpose = Some [''dashboard'', ''app''], colorPreference = Some [''professional''],
      animations = Some [''minimal''], features = Some [''auth'', ''darkmode'', ''forms''],
      complexity = Some [''advanced'']\<rparr>"

definition dashboardData :: TemplateData where
  "dashboardData =
     \<lparr>starterKits = [dashboardKit], matching = [''admin'' \<mapsto> dashboardProfile]\<rparr>"

definition dashboardReasons :: "string list" where
  "dashboardReasons =
     [''Perfect match for dashboard use case'',
      ''Matches professional color scheme preference'',
      ''Includes 2 of your requested features'',
      ''Matches advanced complexity level'']"

text \<open>A request for thirty-one features, of which the example profile has one.\<close>

definition manyFeaturesCriteria :: jsobject where
  "manyFeaturesCriteria =
     [''features'' \<mapsto> JArray
        [''auth'', ''f01'', ''f02'', ''f03'', ''f04'', ''f05'', ''f06'', ''f07'',
         ''f08'', ''f09'', ''f10'', ''f11'', ''f12'', ''f13'', ''f14'', ''f15'',
         ''f16'', ''f17'', ''f18'', ''f19'', ''f20'', ''f21'', ''f22'', ''f23'',
         ''f24'', ''f25'', ''f26'', ''f27'', ''f28'', ''f29'', ''f30'']]"

section \<open>The search result, stated on the lines\<close>

text \<open>
  The lines of the content in which the query occurs as a case-insensitive substring, and
  the condition that no two such lines lie within \<open>contextLines\<close> lines of each other.
\<close>

definition matchingLines :: "string \<Rightarrow> string \<Rightarrow> string list" where
  "matchingLines content query =
     filter (lineMatches (toLowerCase query)) (splitOn CHR 0x0A content)"

fun matchesSpaced :: "(string \<Rightarrow> bool) \<Rightarrow> string list \<Rightarrow> bool" where
  "matchesSpaced P [] = True"
| "matchesSpaced P (x # xs) =
     ((P x \<longrightarrow> \<not> list_ex P (take contextLines xs)) \<and> matchesSpaced P xs)"

section \<open>Resolved paths\<close>

text \<open>
  A segment that \<open>normalizeString\<close> keeps as it is: not empty, free of slashes, and neither
  \<^verbatim>\<open>.\<close> nor \<^verbatim>\<open>..\<close>.
\<close>

definition cleanSeg :: "string \<Rightarrow> bool" where
  "cleanSeg s = (s \<noteq> [] \<and> CHR ''/'' \<notin> set s \<and> s \<noteq> ''.'' \<and> s \<noteq> ''..'')"

text \<open>The part of a path after its final slash (the whole path when it has no slash).\<close>

definition lastSegment :: "string \<Rightarrow> string" where
  "lastSegment p = last (splitOn CHR ''/'' p)"

section \<open>A template data set with several kits\<close>

text \<open>
  Five kits in file order: three match the purpose \<^verbatim>\<open>blog\<close>, one of them the complexity as
  well; one matches nothing; one has no matching profile.
\<close>

definition namedKit :: "string \<Rightarrow> StarterKit" where
  "namedKit i =
     \<lparr>kitId = i, kitName = i, kitDescription = [], kitFeatures = [],
      kitComplexity = ''beginner'', kitAnimations = ''minimal''\<rparr>"

definition plainProfile :: "string list \<Rightarrow> string list \<Rightarrow> MatchData" where
  "plainProfile ps xs =
     \<lparr>purpose = Some ps, colorPreference = None, animations = None, features = None,
      complexity = Some xs\<rparr>"

definition rankingData :: TemplateData where
  "rankingData =
     \<lparr>starterKits = [namedKit ''alpha'', namedKit ''beta'', namedKit ''gamma'',
                     namedKit ''delta'', namedKit ''epsilon''],
      matching = [''alpha'' \<mapsto> plainProfile [''blog''] [''advanced''],
                  ''beta'' \<mapsto> plainProfile [''blog''] [''beginner''],
                  ''gamma'' \<mapsto> plainProfile [''docs'', ''blog''] [''advanced''],
                  ''delta'' \<mapsto> plainProfile [''shop''] [''advanced'']]\<rparr>"

definition rankingCriteria :: jsobject where
  "rankingCriteria = [''purpose'' \<mapsto> JString ''blog'', ''complexity'' \<mapsto> JString ''beginner'']"

definition rankedKit :: "string \<Rightarrow> int \<Rightarrow> string list \<Rightarrow> Recommendation" where
  "rankedKit i n rs = \<lparr>kit = namedKit i, score = n, reasons = rs\<rparr>"

section \<open>Facts about strings and paths\<close>

lemma includesStr_single: "includesStr s [c] = (c \<in> set s)"
  by (induction s) auto

lemma splitOn_no_sep: "c \<notin> set s \<Longrightarrow> splitOn c s = [s]"
  by (induction s) auto

lemma stripTraversal_id:
  "CHR ''/'' \<notin> set s \<Longrightarrow> backslash \<notin> set s \<Longrightarrow> stripTraversal s = s"
  by (cases s rule: stripTraversal.cases) auto

lemma normalize_single_segment:
  assumes "s \<noteq> []" and "CHR ''/'' \<notin> set s"
  shows "pathNormalize s = s"
proof -
  have sp: "splitOn CHR ''/'' s = [s]"
    using assms(2) by (rule splitOn_no_sep)
  have hd_s: "hd s \<noteq> CHR ''/''"
    using assms by (cases s) auto
  have last_s: "last s \<noteq> CHR ''/''"
    using assms by (metis last_in_set)
  show ?thesis
    using assms(1) hd_s last_s
    by (simp add: pathNormalize_def normalizeString_def normSegs_def normStep.simps sp
          Let_def)
qed

lemma allowedChar_not_special:
  "allowedChar c \<Longrightarrow> c \<noteq> CHR ''/'' \<and> c \<noteq> backslash \<and> c \<noteq> nul"
  by (auto simp: allowedChar_def backslash_def nul_def)

lemmas path_eval =
  pathJoin_def pathNormalize_def normalizeString_def normSegs_def normStep.simps
  pathResolve_def

lemmas sanitize_eval =
  sanitizeAndValidatePath_def path_eval backslash_def nul_def allowedPattern_def
  allowedChar_def valid_def invalid_def

section \<open>Path sanitizer\<close>

text \<open>
  C2. As stated (every input that contains \<^verbatim>\<open>..\<close>, a slash, a backslash or NUL is
  rejected) the claim fails: the input \<^verbatim>\<open>../y\<close> contains both \<^verbatim>\<open>..\<close> and a slash, and the
  sanitizer normalises it, strips the leading \<^verbatim>\<open>../\<close> and returns \<^verbatim>\<open>y\<close>.
\<close>

theorem sanitize_accepts_stripped_traversal:
  "includesStr ''../y'' ''..'' \<and> includesStr ''../y'' ''/''
   \<and> isValid (sanitizeAndValidatePath ''../y'' 50)
   \<and> sanitizedValue (sanitizeAndValidatePath ''../y'' 50) = Some ''y''"
  by (simp add: sanitize_eval)

text \<open>
  C2, amended. The test is made on the normalised input after the leading \<^verbatim>\<open>../\<close>
  repetitions are stripped: whenever that value still contains \<^verbatim>\<open>..\<close>, a slash, a
  backslash or NUL, the sanitizer fails with an error and returns no value; hence a
  sanitized value, when one is returned, contains none of them.
\<close>

theorem sanitize_rejects_residual_traversal:
  "(let n = stripTraversal (pathNormalize userInput)
    in includesStr n ''..'' \<or> includesStr n ''/'' \<or> includesStr n [backslash]
       \<or> includesStr n [nul]
       \<longrightarrow> \<not> isValid (sanitizeAndValidatePath userInput maxLength)
           \<and> sanitizedValue (sanitizeAndValidatePath userInput maxLength) = None
           \<and> error (sanitizeAndValidatePath userInput maxLength) \<noteq> None)
   \<and> (\<forall>v. sanitizedValue (sanitizeAndValidatePath userInput maxLength) = Some v
        \<longrightarrow> isValid (sanitizeAndValidatePath userInput maxLength)
            \<and> \<not> includesStr v ''..'' \<and> CHR ''/'' \<notin> set v \<and> backslash \<notin> set v
            \<and> nul \<notin> set v)"
  by (auto simp: sanitizeAndValidatePath_def Let_def invalid_def valid_def includesStr_single
           simp del: includesStr.simps)

theorem sanitize_rejects_residual_traversal_witness:
  "includesStr (stripTraversal (pathNormalize ''a/../..b'')) ''..''
   \<and> \<not> isValid (sanitizeAndValidatePath ''a/../..b'' 50)
   \<and> sanitizedValue (sanitizeAndValidatePath ''a/../..b'' 50) = None
   \<and> error (sanitizeAndValidatePath ''a/../..b'' 50) \<noteq> None
   \<and> sanitizedValue (sanitizeAndValidatePath ''a/../b'' 50) = Some ''b''
   \<and> \<not> includesStr ''b'' ''..'' \<and> CHR ''/'' \<notin> set ''b''"
proof -
  have h: "includesStr (stripTraversal (pathNormalize ''a/../..b'')) ''..''"
    by (simp add: path_eval backslash_def)
  have v: "sanitizedValue (sanitizeAndValidatePath ''a/../b'' 50) = Some ''b''"
    by (simp add: sanitize_eval)
  from sanitize_rejects_residual_traversal [of "''a/../..b''" 50] h
  have r: "\<not> isValid (sanitizeAndValidatePath ''a/../..b'' 50)
      \<and> sanitizedValue (sanitizeAndValidatePath ''a/../..b'' 50) = None
      \<and> error (sanitizeAndValidatePath ''a/../..b'' 50) \<noteq> None"
    unfolding Let_def by blast
  from sanitize_rejects_residual_traversal [of "''a/../b''" 50] v
  have "\<not> includesStr ''b'' ''..'' \<and> CHR ''/'' \<notin> set ''b''"
    by blast
  with h v r show ?thesis by blast
qed

text \<open>
  C3. As stated (every input matching \<^verbatim>\<open>^[A-Za-z0-9\-_.]{1,50}$\<close> is accepted unchanged)
  the claim fails: \<^verbatim>\<open>..\<close> matches the pattern and is rejected by the test for \<^verbatim>\<open>..\<close>.
\<close>

theorem sanitize_rejects_dotdot:
  "allowedPattern ''..'' \<and> length ''..'' \<le> 50
   \<and> \<not> isValid (sanitizeAndValidatePath ''..'' 50)
   \<and> sanitizedValue (sanitizeAndValidatePath ''..'' 50) = None"
  by (simp add: sanitize_eval)

text \<open>
  C3, amended. Every input of 1 to 50 characters from the class \<^verbatim>\<open>[A-Za-z0-9\-_.]\<close> that
  does not contain \<^verbatim>\<open>..\<close> is accepted with maxLength 50, and the sanitized value is the
  input unchanged.
\<close>

theorem sanitize_accepts_pattern_without_dotdot:
  assumes "userInput \<noteq> []" and "length userInput \<le> 50"
    and "list_all allowedChar userInput"
    and "\<not> includesStr userInput ''..''"
  shows "sanitizeAndValidatePath userInput 50 = valid userInput"
proof -
  have nosl: "CHR ''/'' \<notin> set userInput" and nobs: "backslash \<notin> set userInput"
    and nonul: "nul \<notin> set userInput"
    using assms(3) allowedChar_not_special by (auto simp: list_all_iff)
  have n: "stripTraversal (pathNormalize userInput) = userInput"
    using assms(1) nosl nobs by (simp add: normalize_single_segment stripTraversal_id)
  show ?thesis
    using assms nosl nobs nonul
    by (simp add: sanitizeAndValidatePath_def n includesStr_single allowedPattern_def)
qed

theorem sanitize_accepts_pattern_without_dotdot_witness:
  "''app-header.v2'' \<noteq> [] \<and> length ''app-header.v2'' \<le> 50
   \<and> list_all allowedChar ''app-header.v2'' \<and> \<not> includesStr ''app-header.v2'' ''..''
   \<and> sanitizeAndValidatePath ''app-header.v2'' 50 = valid ''app-header.v2''"
proof -
  have h: "''app-header.v2'' \<noteq> []" "length ''app-header.v2'' \<le> 50"
    "list_all allowedChar ''app-header.v2''" "\<not> includesStr ''app-header.v2'' ''..''"
    by (simp_all add: allowedChar_def)
  from sanitize_accepts_pattern_without_dotdot [OF h] h show ?thesis by blast
qed

section \<open>Fetch-by-identifier handlers\<close>

lemmas handler_eval =
  get_catalyst_component_def get_pattern_def get_library_docs_def validateToolInput_def
  validateCatalystComponentArgs_def validatePatternArgs_def allowedCategories_def
  readFile_def catalystComponentsPath_def patternsPath_def libraryDocsPath_def
  componentPath_def patternPath_def libraryPath_def
  isPathWithinBase_def sep_def exampleEnv_def exampleWorld_def Let_def

lemma validate_library_docs: "validateToolInput ''get_library_docs'' (Some args) = None"
  by (simp add: validateToolInput_def)

lemma catalyst_read:
  assumes "validateToolInput ''get_catalyst_component'' (Some args) = None"
  shows "readLog (snd (get_catalyst_component e args w)) = readLog w @ [componentPath e args]"
    and "files (snd (get_catalyst_component e args w)) = files w"
  using assms
  by (simp_all add: get_catalyst_component_def readFile_def Let_def split: sum.splits)

lemma pattern_read:
  assumes "validateToolInput ''get_pattern'' (Some args) = None"
  shows "readLog (snd (get_pattern e args w)) = readLog w @ [patternPath e args]"
    and "files (snd (get_pattern e args w)) = files w"
  using assms
  by (simp_all add: get_pattern_def readFile_def Let_def split: sum.splits)

lemma library_read:
  shows "readLog (snd (get_library_docs e args w)) = readLog w @ [libraryPath e args]"
    and "files (snd (get_library_docs e args w)) = files w"
  by (simp_all add: get_library_docs_def validate_library_docs readFile_def Let_def
                split: sum.splits)

text \<open>
  C1. The handlers never call \<^verbatim>\<open>isPathWithinBase\<close>. \<^verbatim>\<open>get_library_docs\<close> has no case in
  \<^verbatim>\<open>validateToolInput\<close>, and \<^verbatim>\<open>get_catalyst_component\<close> joins the raw argument, not the
  sanitized value, onto its base directory. With \<^verbatim>\<open>../../x\<close> and \<^verbatim>\<open>../x\<close> each performs a
  read of a path that \<^verbatim>\<open>isPathWithinBase\<close> places outside the base directory, and
  \<^verbatim>\<open>get_library_docs\<close> returns the content of that file.
\<close>

theorem fetch_reads_outside_base:
  "get_library_docs exampleEnv [''library_name'' \<mapsto> JString ''../../x''] exampleWorld
     = (Inr ''outside'', exampleWorld\<lparr>readLog := [''/srv/content/x.txt'']\<rparr>)
   \<and> libraryDocsPath exampleEnv = ''/srv/content/docs/libraries''
   \<and> \<not> isPathWithinBase ''/srv'' ''/srv/content/x.txt'' (libraryDocsPath exampleEnv)
   \<and> readLog (snd (get_catalyst_component exampleEnv
                      [''component_name'' \<mapsto> JString ''../x''] exampleWorld))
       = [''/srv/content/components/x.tsx'']
   \<and> catalystComponentsPath exampleEnv = ''/srv/content/components/catalyst''
   \<and> \<not> isPathWithinBase ''/srv'' ''/srv/content/components/x.tsx''
          (catalystComponentsPath exampleEnv)"
  by (simp add: handler_eval sanitize_eval)

text \<open>
  C4. As stated (the second call within the freshness window is served from a cache) the
  claim fails: the handlers call \<^verbatim>\<open>fs.readFile\<close> themselves, so two calls with the same
  identifier read the same file twice.
\<close>

theorem fetch_twice_reads_twice:
  "readLog (snd (get_catalyst_component exampleEnv [''component_name'' \<mapsto> JString ''button'']
            (snd (get_catalyst_component exampleEnv
                    [''component_name'' \<mapsto> JString ''button''] exampleWorld))))
   = [''/srv/content/components/catalyst/button.tsx'',
      ''/srv/content/components/catalyst/button.tsx'']"
  by (simp add: handler_eval sanitize_eval)

text \<open>
  C4, amended. No cache stands between these handlers and the file system, and none of
  them looks at the clock: every call whose arguments pass validation performs exactly one
  \<^verbatim>\<open>fs.readFile\<close> of the assembled path, whatever was read before. Two calls with the same
  identifier therefore perform two reads of the same path.
\<close>

theorem fetch_reads_on_every_call:
  "(validateToolInput ''get_catalyst_component'' (Some args) = None \<longrightarrow>
      readLog (snd (get_catalyst_component e args w)) = readLog w @ [componentPath e args]
      \<and> readLog (snd (get_catalyst_component e args (snd (get_catalyst_component e args w))))
          = readLog w @ [componentPath e args, componentPath e args])
   \<and> (validateToolInput ''get_pattern'' (Some args) = None \<longrightarrow>
      readLog (snd (get_pattern e args w)) = readLog w @ [patternPath e args]
      \<and> readLog (snd (get_pattern e args (snd (get_pattern e args w))))
          = readLog w @ [patternPath e args, patternPath e args])
   \<and> readLog (snd (get_library_docs e args w)) = readLog w @ [libraryPath e args]
   \<and> readLog (snd (get_library_docs e args (snd (get_library_docs e args w))))
          = readLog w @ [libraryPath e args, libraryPath e args]"
  by (simp add: catalyst_read pattern_read library_read)

theorem fetch_reads_on_every_call_witness:
  "validateToolInput ''get_catalyst_component'' (Some exampleArgs) = None
   \<and> validateToolInput ''get_pattern'' (Some exampleArgs) = None
   \<and> readLog (snd (get_catalyst_component exampleEnv exampleArgs
         (snd (get_catalyst_component exampleEnv exampleArgs exampleWorld))))
       = [''/srv/content/components/catalyst/button.tsx'',
          ''/srv/content/components/catalyst/button.tsx'']
   \<and> readLog (snd (get_pattern exampleEnv exampleArgs
         (snd (get_pattern exampleEnv exampleArgs exampleWorld))))
       = [''/srv/content/patterns/pages/hero-section.md'',
          ''/srv/content/patterns/pages/hero-section.md'']
   \<and> readLog (snd (get_library_docs exampleEnv exampleArgs
         (snd (get_library_docs exampleEnv exampleArgs exampleWorld))))
       = [''/srv/content/docs/libraries/clsx.txt'',
          ''/srv/content/docs/libraries/clsx.txt'']"
proof -
  have c: "validateToolInput ''get_catalyst_component'' (Some exampleArgs) = None"
    by (simp add: handler_eval sanitize_eval exampleArgs_def)
  have p: "validateToolInput ''get_pattern'' (Some exampleArgs) = None"
    by (simp add: handler_eval sanitize_eval exampleArgs_def)
  have paths: "componentPath exampleEnv exampleArgs
                 = ''/srv/content/components/catalyst/button.tsx''"
    "patternPath exampleEnv exampleArgs = ''/srv/content/patterns/pages/hero-section.md''"
    "libraryPath exampleEnv exampleArgs = ''/srv/content/docs/libraries/clsx.txt''"
    by (simp_all add: handler_eval path_eval exampleArgs_def)
  have l: "readLog exampleWorld = []"
    by (simp add: exampleWorld_def)
  from fetch_reads_on_every_call [of exampleArgs exampleEnv exampleWorld] c p
  show ?thesis by (simp add: paths l)
qed

text \<open>
  C9. When the read of the assembled path fails with \<^verbatim>\<open>ENOENT\<close>, each handler fails with
  an \<^verbatim>\<open>McpError\<close> of code \<^verbatim>\<open>InvalidRequest\<close> whose message quotes the requested identifier
  and points to the companion list operation.
\<close>

theorem fetch_missing_file_not_found:
  "(validateToolInput ''get_catalyst_component'' (Some args) = None
      \<and> files w (componentPath e args) = Inl (FsError ''ENOENT'') \<longrightarrow>
      fst (get_catalyst_component e args w) =
        Inl (McpError InvalidRequest
          (''Catalyst component '' @ sq @ toStr (args ''component_name'') @ sq
           @ '' not found. Use list_catalyst_components to see available components.'')))
   \<and> (validateToolInput ''get_pattern'' (Some args) = None
      \<and> files w (patternPath e args) = Inl (FsError ''ENOENT'') \<longrightarrow>
      fst (get_pattern e args w) =
        Inl (McpError InvalidRequest
          (''Pattern '' @ sq @ toStr (args ''pattern_name'') @ sq
           @ '' not found in category '' @ sq @ toStr (args ''category'') @ sq
           @ ''. Use list_patterns to see available patterns.'')))
   \<and> (files w (libraryPath e args) = Inl (FsError ''ENOENT'') \<longrightarrow>
      fst (get_library_docs e args w) =
        Inl (McpError InvalidRequest
          (''Library documentation for '' @ sq @ toStr (args ''library_name'') @ sq
           @ '' not found. Use list_library_docs to see available libraries.'')))"
  by (simp add: get_catalyst_component_def get_pattern_def get_library_docs_def
        validate_library_docs readFile_def)

theorem fetch_missing_file_not_found_witness:
  "validateToolInput ''get_catalyst_component'' (Some exampleArgs) = None
   \<and> validateToolInput ''get_pattern'' (Some exampleArgs) = None
   \<and> files emptyWorld (componentPath exampleEnv exampleArgs) = Inl (FsError ''ENOENT'')
   \<and> files emptyWorld (patternPath exampleEnv exampleArgs) = Inl (FsError ''ENOENT'')
   \<and> files emptyWorld (libraryPath exampleEnv exampleArgs) = Inl (FsError ''ENOENT'')
   \<and> fst (get_catalyst_component exampleEnv exampleArgs emptyWorld) =
        Inl (McpError InvalidRequest
          (''Catalyst component 'button' not found. ''
           @ ''Use list_catalyst_components to see available components.''))
   \<and> fst (get_pattern exampleEnv exampleArgs emptyWorld) =
        Inl (McpError InvalidRequest
          (''Pattern 'hero-section' not found in category 'pages'. ''
           @ ''Use list_patterns to see available patterns.''))
   \<and> fst (get_library_docs exampleEnv exampleArgs emptyWorld) =
        Inl (McpError InvalidRequest
          (''Library documentation for 'clsx' not found. ''
           @ ''Use list_library_docs to see available libraries.''))"
proof -
  have c: "validateToolInput ''get_catalyst_component'' (Some exampleArgs) = None"
    by (simp add: handler_eval sanitize_eval exampleArgs_def)
  have p: "validateToolInput ''get_pattern'' (Some exampleArgs) = None"
    by (simp add: handler_eval sanitize_eval exampleArgs_def)
  have f: "files emptyWorld q = Inl (FsError ''ENOENT'')" for q
    by (simp add: emptyWorld_def)
  have a: "toStr (exampleArgs ''component_name'') = ''button''"
    "toStr (exampleArgs ''pattern_name'') = ''hero-section''"
    "toStr (exampleArgs ''category'') = ''pages''"
    "toStr (exampleArgs ''library_name'') = ''clsx''"
    by (simp_all add: exampleArgs_def)
  from fetch_missing_file_not_found [of exampleArgs emptyWorld exampleEnv] c p f
  show ?thesis by (simp add: a sq_def)
qed

section \<open>Recommendation scorer\<close>

lemma showNat_2: "showNat (Suc (Suc 0)) = ''2''"
  by code_simp

lemma mathRound_of_int: "mathRound (of_int n) = n"
  unfolding mathRound_def by (rule floor_unique) simp_all

lemma mathRound_numeral: "mathRound (numeral n) = numeral n"
  using mathRound_of_int [of "numeral n"] by simp


lemmas scorer_eval =
  calculateRecommendations_def scoreKit_def featureBlock_def dimensionMatches_def
  mathRound_numeral dashboardCriteria_def dashboardKit_def dashboardProfile_def
  dashboardData_def dashboardReasons_def Let_def

lemma featureBlock_returns:
  assumes "\<not> (featuresIsNonEmptyString criteria \<and> features md \<noteq> None)"
  shows "featureBlock criteria md a \<noteq> Inl err"
  using assms
  by (auto simp: featureBlock_def featuresIsNonEmptyString_def Let_def
           split: option.splits jsval.splits)

lemma featureBlock_throws:
  assumes "featuresIsNonEmptyString criteria" and "features md \<noteq> None"
  shows "featureBlock criteria md a = Inl typeError"
  using assms
  by (auto simp: featureBlock_def featuresIsNonEmptyString_def typeError_def
           split: option.splits jsval.splits)

lemma scoreKit_returns:
  assumes "\<not> (featuresIsNonEmptyString criteria \<and> features md \<noteq> None)"
  shows "scoreKit criteria md \<noteq> Inl err"
  using featureBlock_returns [of criteria md] assms
  by (simp add: scoreKit_def Let_def split: sum.splits)

lemma scoreKit_throws:
  assumes "featuresIsNonEmptyString criteria" and "features md \<noteq> None"
  shows "scoreKit criteria md = Inl typeError"
  using featureBlock_throws [of criteria md] assms
  by (simp add: scoreKit_def Let_def)

lemma scoreKits_acc:
  "scoreKits criteria m kits (acc @ recs) =
     (case scoreKits criteria m kits recs of Inl err \<Rightarrow> Inl err | Inr rs \<Rightarrow> Inr (acc @ rs))"
  by (induction kits arbitrary: recs) (auto split: option.splits sum.splits)

lemma set_map_filter: "set (List.map_filter f xs) = {y. \<exists>x \<in> set xs. f x = Some y}"
  by (induction xs) (auto split: option.splits)

lemma scoredKit_None: "m (kitId k) = None \<Longrightarrow> scoredKit criteria m k = None"
  by (simp add: scoredKit_def)

lemma scoredKit_Some:
  "m (kitId k) = Some md \<Longrightarrow> scoreKit criteria md = Inr (s, rs) \<Longrightarrow>
     scoredKit criteria m k =
       (if s > 0 then Some \<lparr>kit = k, score = mathRound s, reasons = rs\<rparr> else None)"
  by (simp add: scoredKit_def)

lemma scoreKits_returns:
  assumes "\<forall>k \<in> set kits. \<forall>md. m (kitId k) = Some md
             \<longrightarrow> \<not> (featuresIsNonEmptyString criteria \<and> features md \<noteq> None)"
  shows "scoreKits criteria m kits [] = Inr (List.map_filter (scoredKit criteria m) kits)"
  using assms
proof (induction kits)
  case Nil
  show ?case by (simp add: List.map_filter_simps)
next
  case (Cons k kits)
  have IH: "scoreKits criteria m kits [] = Inr (List.map_filter (scoredKit criteria m) kits)"
    using Cons by simp
  have step: "scoreKits criteria m kits [r] = Inr (r # List.map_filter (scoredKit criteria m) kits)"
    for r
    using scoreKits_acc [of criteria m kits "[r]" "[]"] IH by simp
  show ?case
  proof (cases "m (kitId k)")
    case None
    then show ?thesis using IH by (simp add: List.map_filter_simps scoredKit_None)
  next
    case (Some md)
    have "\<not> (featuresIsNonEmptyString criteria \<and> features md \<noteq> None)"
      using Cons.prems Some by simp
    then obtain s rs where sk: "scoreKit criteria md = Inr (s, rs)"
      using scoreKit_returns [of criteria md] by (cases "scoreKit criteria md") auto
    show ?thesis
      using Some sk IH step
      by (simp add: List.map_filter_simps scoredKit_Some [where md = md and s = s and rs = rs])
  qed
qed

lemma scoreKits_throws:
  assumes "featuresIsNonEmptyString criteria"
    and "\<exists>k \<in> set kits. \<exists>md. m (kitId k) = Some md \<and> features md \<noteq> None"
  shows "scoreKits criteria m kits recs = Inl typeError"
  using assms(2)
proof (induction kits arbitrary: recs)
  case Nil
  then show ?case by simp
next
  case (Cons k kits)
  show ?case
  proof (cases "m (kitId k)")
    case None
    then have "\<exists>k \<in> set kits. \<exists>md. m (kitId k) = Some md \<and> features md \<noteq> None"
      using Cons.prems by auto
    then show ?thesis using None Cons.IH by simp
  next
    case (Some md)
    show ?thesis
    proof (cases "features md")
      case fnone: None
      then have "\<exists>k \<in> set kits. \<exists>md. m (kitId k) = Some md \<and> features md \<noteq> None"
        using Cons.prems Some by auto
      then have IH: "scoreKits criteria m kits r = Inl typeError" for r
        using Cons.IH by simp
      obtain s rs where sk: "scoreKit criteria md = Inr (s, rs)"
        using scoreKit_returns [of criteria md] fnone
        by (cases "scoreKit criteria md") auto
      show ?thesis using Some sk IH by simp
    next
      case (Some mf)
      then have "scoreKit criteria md = Inl typeError"
        using assms(1) by (intro scoreKit_throws) simp_all
      then show ?thesis using \<open>m (kitId k) = Some md\<close> by simp
    qed
  qed
qed

lemma scorerThrows_iff:
  "scorerThrows data criteria \<longleftrightarrow>
     featuresIsNonEmptyString criteria
     \<and> (\<exists>k \<in> set (starterKits data). \<exists>md. matching data (kitId k) = Some md
           \<and> features md \<noteq> None)"
proof -
  have "hasFeatureProfile data k \<longleftrightarrow>
          (\<exists>md. matching data (kitId k) = Some md \<and> features md \<noteq> None)" for k
    by (cases "matching data (kitId k)") (simp_all add: hasFeatureProfile_def)
  then show ?thesis
    by (simp add: scorerThrows_def list_ex_iff)
qed

lemma calculateRecommendations_returns:
  assumes "\<not> scorerThrows data criteria"
  shows "calculateRecommendations data criteria =
           Inr (sort_key (\<lambda>r. - score r) (positivelyScored data criteria))"
proof -
  have "\<forall>k \<in> set (starterKits data). \<forall>md. matching data (kitId k) = Some md
          \<longrightarrow> \<not> (featuresIsNonEmptyString criteria \<and> features md \<noteq> None)"
    using assms by (auto simp: scorerThrows_iff)
  then have "scoreKits criteria (matching data) (starterKits data) []
               = Inr (List.map_filter (scoredKit criteria (matching data)) (starterKits data))"
    by (rule scoreKits_returns)
  then show ?thesis
    by (simp add: calculateRecommendations_def positivelyScored_def)
qed

lemma calculateRecommendations_throws:
  assumes "scorerThrows data criteria"
  shows "calculateRecommendations data criteria = Inl typeError"
proof -
  have "scoreKits criteria (matching data) (starterKits data) [] = Inl typeError"
    using assms by (intro scoreKits_throws) (auto simp: scorerThrows_iff)
  then show ?thesis
    by (simp add: calculateRecommendations_def)
qed

lemma scoreKit_no_match:
  assumes "\<not> dimensionMatches (criteria ''purpose'') (purpose md)"
    and "\<not> dimensionMatches (criteria ''colorPreference'') (colorPreference md)"
    and "\<not> dimensionMatches (criteria ''animations'') (animations md)"
    and "\<not> dimensionMatches (criteria ''complexity'') (complexity md)"
    and "\<forall>fs mf. criteria ''features'' = Some (JArray fs) \<and> features md = Some mf
           \<longrightarrow> list_all (\<lambda>f. f \<notin> set mf) fs"
    and "\<not> (featuresIsNonEmptyString criteria \<and> features md \<noteq> None)"
  shows "scoreKit criteria md = Inr (0, [])"
proof -
  have "featureBlock criteria md (0, []) = Inr (0, [])"
  proof (cases "criteria ''features''")
    case None
    then show ?thesis by (simp add: featureBlock_def)
  next
    case (Some v)
    show ?thesis
    proof (cases v)
      case (JString s)
      then show ?thesis
        using Some assms(6)
        by (auto simp: featureBlock_def featuresIsNonEmptyString_def)
    next
      case (JNumber n)
      then show ?thesis using Some by (simp add: featureBlock_def)
    next
      case (JArray fs)
      show ?thesis
      proof (cases "features md")
        case None
        then show ?thesis using Some JArray by (simp add: featureBlock_def)
      next
        case (Some mf)
        have "list_all (\<lambda>f. f \<notin> set mf) fs"
          using assms(5) \<open>criteria ''features'' = Some v\<close> JArray Some by simp
        then have "filter (\<lambda>f. f \<in> set mf) fs = []"
          by (auto simp: filter_empty_conv list_all_iff)
        then show ?thesis
          using \<open>criteria ''features'' = Some v\<close> JArray Some
          by (simp add: featureBlock_def)
      qed
    qed
  qed
  then show ?thesis
    using assms(1-4) by (simp add: scoreKit_def)
qed


lemma scoreKit_noDimensionMatches:
  assumes "noDimensionMatches criteria md"
    and "\<not> (featuresIsNonEmptyString criteria \<and> features md \<noteq> None)"
  shows "scoreKit criteria md = Inr (0, [])"
  using assms by (intro scoreKit_no_match) (auto simp: noDimensionMatches_def)

lemma scoreKit_cong:
  assumes "c1 ''purpose'' = c2 ''purpose''" and "c1 ''colorPreference'' = c2 ''colorPreference''"
    and "c1 ''animations'' = c2 ''animations''" and "c1 ''features'' = c2 ''features''"
    and "c1 ''complexity'' = c2 ''complexity''"
  shows "scoreKit c1 md = scoreKit c2 md"
  by (simp only: scoreKit_def featureBlock_def assms)

lemma scoreKits_cong:
  assumes "\<And>md. scoreKit c1 md = scoreKit c2 md"
  shows "scoreKits c1 m kits recs = scoreKits c2 m kits recs"
  by (induction kits arbitrary: recs) (auto simp: assms split: option.splits sum.splits)

lemma mathRound_15_31: "mathRound (15 / 31) = 0"
  unfolding mathRound_def by (rule floor_unique) simp_all

lemma showNat_1: "showNat (Suc 0) = ''1''"
  by code_simp

text \<open>
  C6. As stated (score 100) the claim fails: the example supplies no \<^verbatim>\<open>animations\<close>
  criterion, so the 20 points of that dimension are never added; the four matched
  dimensions give 40 + 15 + 15 + 10 = 80.
\<close>

theorem scorer_example_scores_80:
  "calculateRecommendations dashboardData dashboardCriteria
     = Inr [\<lparr>kit = dashboardKit, score = 80, reasons = dashboardReasons\<rparr>]
   \<and> length dashboardReasons = 4"
  by (simp add: scorer_eval showNat_2)

text \<open>
  C6, amended. Scoring the example criteria against any record whose profile matches all
  four supplied dimensions yields a scored result with score 80 and four reasons.
\<close>

theorem scorer_all_four_matched:
  assumes "k \<in> set (starterKits data)" and "matching data (kitId k) = Some md"
    and "purpose md = Some ps" and "''dashboard'' \<in> set ps"
    and "colorPreference md = Some cs" and "''professional'' \<in> set cs"
    and "features md = Some mf" and "''auth'' \<in> set mf" and "''darkmode'' \<in> set mf"
    and "complexity md = Some xs" and "''advanced'' \<in> set xs"
  shows "scoreKit dashboardCriteria md = Inr (80, dashboardReasons)
    \<and> length dashboardReasons = 4
    \<and> (\<exists>recs. calculateRecommendations data dashboardCriteria = Inr recs
          \<and> \<lparr>kit = k, score = 80, reasons = dashboardReasons\<rparr> \<in> set recs)"
proof -
  have sk: "scoreKit dashboardCriteria md = Inr (80, dashboardReasons)"
    using assms(3-11)
    by (simp add: scoreKit_def featureBlock_def dimensionMatches_def dashboardCriteria_def
          dashboardReasons_def showNat_2)
  have typed: "\<not> scorerThrows data dashboardCriteria"
    by (simp add: scorerThrows_def featuresIsNonEmptyString_def dashboardCriteria_def)
  have "scoredKit dashboardCriteria (matching data) k
          = Some \<lparr>kit = k, score = 80, reasons = dashboardReasons\<rparr>"
    using assms(2) sk by (simp add: scoredKit_def mathRound_numeral)
  then have "\<lparr>kit = k, score = 80, reasons = dashboardReasons\<rparr>
               \<in> set (positivelyScored data dashboardCriteria)"
    using assms(1) by (auto simp: positivelyScored_def set_map_filter)
  then show ?thesis
    using sk by (simp add: calculateRecommendations_returns [OF typed] dashboardReasons_def)
qed

theorem scorer_all_four_matched_witness:
  "dashboardKit \<in> set (starterKits dashboardData)
   \<and> matching dashboardData (kitId dashboardKit) = Some dashboardProfile
   \<and> scoreKit dashboardCriteria dashboardProfile = Inr (80, dashboardReasons)
   \<and> length dashboardReasons = 4
   \<and> (\<exists>recs. calculateRecommendations dashboardData dashboardCriteria = Inr recs
          \<and> \<lparr>kit = dashboardKit, score = 80, reasons = dashboardReasons\<rparr> \<in> set recs)"
proof -
  have h: "dashboardKit \<in> set (starterKits dashboardData)"
    "matching dashboardData (kitId dashboardKit) = Some dashboardProfile"
    by (simp_all add: dashboardData_def dashboardKit_def)
  have p: "purpose dashboardProfile = Some [''dashboard'', ''app'']"
    "''dashboard'' \<in> set [''dashboard'', ''app'']"
    "colorPreference dashboardProfile = Some [''professional'']"
    "''professional'' \<in> set [''professional'']"
    "features dashboardProfile = Some [''auth'', ''darkmode'', ''forms'']"
    "''auth'' \<in> set [''auth'', ''darkmode'', ''forms'']"
    "''darkmode'' \<in> set [''auth'', ''darkmode'', ''forms'']"
    "complexity dashboardProfile = Some [''advanced'']"
    "''advanced'' \<in> set [''advanced'']"
    by (simp_all add: dashboardProfile_def)
  from scorer_all_four_matched [OF h p] h show ?thesis by blast
qed

text \<open>
  C7. As stated (exactly the records whose \<^emph>\<open>rounded\<close> score is positive) the claim fails:
  the test \<^verbatim>\<open>score > 0\<close> is made before rounding. With one of thirty-one requested features
  matched the score is 15/31, which is positive and rounds to 0, and the record is returned
  with score 0.
\<close>

theorem recommendation_with_rounded_score_zero:
  "calculateRecommendations dashboardData manyFeaturesCriteria
     = Inr [\<lparr>kit = dashboardKit, score = 0,
             reasons = [''Includes 1 of your requested features'']\<rparr>]"
  by (simp add: calculateRecommendations_def scoreKit_def featureBlock_def
        dimensionMatches_def dashboardData_def dashboardProfile_def dashboardKit_def
        manyFeaturesCriteria_def mathRound_15_31 showNat_1)

text \<open>
  C7, amended. Unless \<^verbatim>\<open>criteria.features\<close> is a non-empty string and some record's profile
  has a \<^verbatim>\<open>features\<close> property (then, and only then, the code throws a \<^verbatim>\<open>TypeError\<close> and
  returns nothing), the sequence returned by \<open>calculateRecommendations\<close> consists of exactly
  the records, having a matching profile, whose score \<^emph>\<open>before rounding\<close> is strictly
  positive, each with its rounded score (which can be 0); it is ordered by score
  descending, and the results of equal score keep the records' input order. Criteria that
  match no dimension of any profile yield the empty sequence.
\<close>

theorem recommendations_sorted_positive_raw_scores:
  "(\<not> scorerThrows data criteria \<longrightarrow>
      (\<exists>recs. calculateRecommendations data criteria = Inr recs
        \<and> sorted_wrt (\<lambda>a b. score b \<le> score a) recs
        \<and> set recs = set (positivelyScored data criteria)
        \<and> length recs = length (positivelyScored data criteria)
        \<and> (\<forall>v. filter (\<lambda>r. score r = v) recs
                 = filter (\<lambda>r. score r = v) (positivelyScored data criteria))
        \<and> ((\<forall>k \<in> set (starterKits data). \<forall>md. matching data (kitId k) = Some md
                \<longrightarrow> noDimensionMatches criteria md) \<longrightarrow> recs = [])))
   \<and> (scorerThrows data criteria \<longrightarrow>
        calculateRecommendations data criteria = Inl typeError)"
proof (intro conjI impI)
  assume nt: "\<not> scorerThrows data criteria"
  let ?ps = "positivelyScored data criteria"
  let ?recs = "sort_key (\<lambda>r. - score r) ?ps"
  have r: "calculateRecommendations data criteria = Inr ?recs"
    by (rule calculateRecommendations_returns [OF nt])
  have "sorted (map (\<lambda>r. - score r) ?recs)"
    by (rule sorted_sort_key)
  then have s: "sorted_wrt (\<lambda>a b. score b \<le> score a) ?recs"
    by (simp add: sorted_map)
  have st: "filter (\<lambda>r. score r = v) ?recs = filter (\<lambda>r. score r = v) ?ps" for v
    using sort_key_stable [of "\<lambda>r. - score r" "- v" ?ps] by simp
  have e: "?ps = []"
    if nm: "\<forall>k \<in> set (starterKits data). \<forall>md. matching data (kitId k) = Some md
            \<longrightarrow> noDimensionMatches criteria md"
  proof -
    have "scoredKit criteria (matching data) k = None" if "k \<in> set (starterKits data)" for k
    proof (cases "matching data (kitId k)")
      case None
      then show ?thesis by (simp add: scoredKit_def)
    next
      case (Some md)
      then have "noDimensionMatches criteria md"
        using \<open>k \<in> set (starterKits data)\<close> nm by blast
      moreover have "\<not> (featuresIsNonEmptyString criteria \<and> features md \<noteq> None)"
        using nt Some \<open>k \<in> set (starterKits data)\<close> by (auto simp: scorerThrows_iff)
      ultimately have "scoreKit criteria md = Inr (0, [])"
        by (rule scoreKit_noDimensionMatches)
      then show ?thesis using Some by (simp add: scoredKit_def)
    qed
    then have "set ?ps = {}"
      by (auto simp: positivelyScored_def set_map_filter)
    then show ?thesis by simp
  qed
  show "\<exists>recs. calculateRecommendations data criteria = Inr recs
        \<and> sorted_wrt (\<lambda>a b. score b \<le> score a) recs
        \<and> set recs = set (positivelyScored data criteria)
        \<and> length recs = length (positivelyScored data criteria)
        \<and> (\<forall>v. filter (\<lambda>r. score r = v) recs
                 = filter (\<lambda>r. score r = v) (positivelyScored data criteria))
        \<and> ((\<forall>k \<in> set (starterKits data). \<forall>md. matching data (kitId k) = Some md
                \<longrightarrow> noDimensionMatches criteria md) \<longrightarrow> recs = [])"
    using r s st e by auto
next
  assume "scorerThrows data criteria"
  then show "calculateRecommendations data criteria = Inl typeError"
    by (rule calculateRecommendations_throws)
qed

theorem recommendations_sorted_positive_raw_scores_witness:
  "\<not> scorerThrows rankingData rankingCriteria
   \<and> positivelyScored rankingData rankingCriteria
       = [rankedKit ''alpha'' 40 [''Perfect match for blog use case''],
          rankedKit ''beta'' 50 [''Perfect match for blog use case'',
                                 ''Matches beginner complexity level''],
          rankedKit ''gamma'' 40 [''Perfect match for blog use case'']]
   \<and> calculateRecommendations rankingData rankingCriteria
       = Inr [rankedKit ''beta'' 50 [''Perfect match for blog use case'',
                                     ''Matches beginner complexity level''],
              rankedKit ''alpha'' 40 [''Perfect match for blog use case''],
              rankedKit ''gamma'' 40 [''Perfect match for blog use case'']]
   \<and> sorted_wrt (\<lambda>a b. score b \<le> score a)
         [rankedKit ''beta'' 50 [''Perfect match for blog use case'',
                                 ''Matches beginner complexity level''],
          rankedKit ''alpha'' 40 [''Perfect match for blog use case''],
          rankedKit ''gamma'' 40 [''Perfect match for blog use case'']]
   \<and> filter (\<lambda>r. score r = 40)
         [rankedKit ''beta'' 50 [''Perfect match for blog use case'',
                                 ''Matches beginner complexity level''],
          rankedKit ''alpha'' 40 [''Perfect match for blog use case''],
          rankedKit ''gamma'' 40 [''Perfect match for blog use case'']]
       = [rankedKit ''alpha'' 40 [''Perfect match for blog use case''],
          rankedKit ''gamma'' 40 [''Perfect match for blog use case'']]
   \<and> calculateRecommendations dashboardData [''purpose'' \<mapsto> JString ''blog''] = Inr []
   \<and> \<not> scorerThrows dashboardData
         [''purpose'' \<mapsto> JString ''dashboard'', ''features'' \<mapsto> JString []]
   \<and> calculateRecommendations dashboardData
         [''purpose'' \<mapsto> JString ''dashboard'', ''features'' \<mapsto> JString []]
       = Inr [\<lparr>kit = dashboardKit, score = 40,
               reasons = [''Perfect match for dashboard use case'']\<rparr>]
   \<and> scorerThrows dashboardData [''features'' \<mapsto> JString ''auth'']
   \<and> calculateRecommendations dashboardData [''features'' \<mapsto> JString ''auth'']
       = Inl typeError"
proof -
  let ?a = "rankedKit ''alpha'' 40 [''Perfect match for blog use case'']"
  let ?b = "rankedKit ''beta'' 50 [''Perfect match for blog use case'',
                                   ''Matches beginner complexity level'']"
  let ?g = "rankedKit ''gamma'' 40 [''Perfect match for blog use case'']"
  let ?blog = "[''purpose'' \<mapsto> JString ''blog'']"
  let ?empty = "[''purpose'' \<mapsto> JString ''dashboard'', ''features'' \<mapsto> JString []]"
  let ?str = "[''features'' \<mapsto> JString ''auth'']"
  note kit_defs = rankingData_def rankingCriteria_def namedKit_def plainProfile_def
    rankedKit_def dashboardData_def dashboardKit_def dashboardProfile_def
  note throw_defs = scorerThrows_def featuresIsNonEmptyString_def hasFeatureProfile_def
  note score_defs = positivelyScored_def scoredKit_def scoreKit_def featureBlock_def
    dimensionMatches_def mathRound_numeral Let_def
  have t1: "\<not> scorerThrows rankingData rankingCriteria"
    by (simp add: throw_defs kit_defs)
  have ps: "positivelyScored rankingData rankingCriteria = [?a, ?b, ?g]"
    by (simp add: score_defs kit_defs)
  from recommendations_sorted_positive_raw_scores [of rankingData rankingCriteria] t1
  obtain recs where c: "calculateRecommendations rankingData rankingCriteria = Inr recs"
    and so: "sorted_wrt (\<lambda>a b. score b \<le> score a) recs"
    and len: "length recs = length (positivelyScored rankingData rankingCriteria)"
    and f50: "filter (\<lambda>r. score r = 50) recs
                = filter (\<lambda>r. score r = 50) (positivelyScored rankingData rankingCriteria)"
    and f40: "filter (\<lambda>r. score r = 40) recs
                = filter (\<lambda>r. score r = 40) (positivelyScored rankingData rankingCriteria)"
    by blast
  have "calculateRecommendations rankingData rankingCriteria = Inr [?b, ?a, ?g]"
    by (simp add: calculateRecommendations_returns [OF t1] ps sort_key_def rankedKit_def)
  then have r1: "recs = [?b, ?a, ?g]"
    using c by simp
  have t2: "\<not> scorerThrows dashboardData ?blog"
    by (simp add: throw_defs)
  have n: "\<forall>k \<in> set (starterKits dashboardData). \<forall>md.
             matching dashboardData (kitId k) = Some md \<longrightarrow> noDimensionMatches ?blog md"
    by (simp add: kit_defs noDimensionMatches_def dimensionMatches_def)
  from recommendations_sorted_positive_raw_scores [of dashboardData ?blog] t2 n
  have r2: "calculateRecommendations dashboardData ?blog = Inr []"
    by blast
  have t3: "\<not> scorerThrows dashboardData ?empty"
    by (simp add: throw_defs)
  have ps3: "positivelyScored dashboardData ?empty
               = [\<lparr>kit = dashboardKit, score = 40,
                    reasons = [''Perfect match for dashboard use case'']\<rparr>]"
    by (simp add: score_defs kit_defs)
  from recommendations_sorted_positive_raw_scores [of dashboardData ?empty] t3
  obtain recs3 where c3: "calculateRecommendations dashboardData ?empty = Inr recs3"
    and f3: "filter (\<lambda>r. score r = 40) recs3
               = filter (\<lambda>r. score r = 40) (positivelyScored dashboardData ?empty)"
    and l3: "length recs3 = length (positivelyScored dashboardData ?empty)"
    by blast
  have "length (filter (\<lambda>r. score r = 40) recs3) = length recs3"
    using f3 l3 ps3 by simp
  then have "filter (\<lambda>r. score r = 40) recs3 = recs3"
    by (metis filter_True length_filter_less less_irrefl_nat)
  then have r3: "recs3 = [\<lparr>kit = dashboardKit, score = 40,
                            reasons = [''Perfect match for dashboard use case'']\<rparr>]"
    using f3 ps3 by simp
  have t4: "scorerThrows dashboardData ?str"
    by (simp add: throw_defs kit_defs)
  from recommendations_sorted_positive_raw_scores [of dashboardData ?str] t4
  have r4: "calculateRecommendations dashboardData ?str = Inl typeError"
    by blast
  have o: "sorted_wrt (\<lambda>a b. score b \<le> score a) [?b, ?a, ?g]"
    using so r1 by simp
  have "filter (\<lambda>r. score r = 40) [?b, ?a, ?g] = filter (\<lambda>r. score r = 40) [?a, ?b, ?g]"
    using f40 r1 ps by simp
  then have f: "filter (\<lambda>r. score r = 40) [?b, ?a, ?g] = [?a, ?g]"
    by (simp add: rankedKit_def)
  show ?thesis
    using t1 ps c r1 o f r2 t3 c3 r3 t4 r4 by simp
qed

text \<open>
  C10. Whenever the five fields of the answers equal those of a criteria object,
  \<^verbatim>\<open>answer_questionnaire\<close> computes the recommendation sequence that \<^verbatim>\<open>recommend_template\<close>
  computes for that criteria object, on every template data set.
\<close>

theorem questionnaire_agrees_with_recommend_template:
  assumes "answers ''purpose'' = criteria ''purpose''"
    and "answers ''colorPreference'' = criteria ''colorPreference''"
    and "answers ''animations'' = criteria ''animations''"
    and "answers ''features'' = criteria ''features''"
    and "answers ''complexity'' = criteria ''complexity''"
  shows "answer_questionnaire data answers = recommend_template data criteria"
proof -
  have "scoreKit (questionnaireCriteria answers) md = scoreKit criteria md" for md
    using assms by (intro scoreKit_cong) (simp_all add: questionnaireCriteria_def)
  then have "scoreKits (questionnaireCriteria answers) m kits recs
               = scoreKits criteria m kits recs" for m kits recs
    by (rule scoreKits_cong)
  then show ?thesis
    by (simp add: answer_questionnaire_def recommend_template_def
          calculateRecommendations_def)
qed

theorem questionnaire_agrees_with_recommend_template_witness:
  "answer_questionnaire dashboardData (dashboardCriteria(''name'' \<mapsto> JString ''Ada''))
     = recommend_template dashboardData dashboardCriteria"
proof -
  let ?a = "dashboardCriteria(''name'' \<mapsto> JString ''Ada'')"
  have h: "?a ''purpose'' = dashboardCriteria ''purpose''"
    "?a ''colorPreference'' = dashboardCriteria ''colorPreference''"
    "?a ''animations'' = dashboardCriteria ''animations''"
    "?a ''features'' = dashboardCriteria ''features''"
    "?a ''complexity'' = dashboardCriteria ''complexity''"
    by simp_all
  from questionnaire_agrees_with_recommend_template [OF h] show ?thesis .
qed

section \<open>Text search\<close>

lemma length_filter_drop: "length (filter P (drop n xs)) \<le> length (filter P xs)"
proof -
  have "filter P xs = filter P (take n xs) @ filter P (drop n xs)"
    by (metis append_take_drop_id filter_append)
  then show ?thesis by simp
qed

lemma filter_drop_Suc:
  "i < length xs \<Longrightarrow>
     filter P (drop i xs) = (if P (xs ! i) then [xs ! i] else []) @ filter P (drop (Suc i) xs)"
proof -
  assume "i < length xs"
  then have "drop i xs = xs ! i # drop (Suc i) xs"
    by (simp add: Cons_nth_drop_Suc)
  then show ?thesis by simp
qed

lemma searchLoop_at_most_matches:
  "length (searchLoop lines q limit i results)
     \<le> length results + length (filter (lineMatches q) (drop i lines))"
proof (induction lines q limit i results rule: searchLoop.induct)
  case (1 lines q limit i results)
  show ?case
  proof (cases "i < length lines \<and> int (length results) < limit")
    case False
    then have "searchLoop lines q limit i results = results"
      by (subst searchLoop.simps) auto
    then show ?thesis by simp
  next
    case True
    show ?thesis
    proof (cases "lineMatches q (lines ! i)")
      case m: True
      have "length (filter (lineMatches q) (drop (i + contextLines + 1) lines))
              \<le> length (filter (lineMatches q) (drop (Suc i) lines))"
        using length_filter_drop [of "lineMatches q" contextLines "drop (Suc i) lines"]
        by (simp add: add.commute)
      moreover have "length (filter (lineMatches q) (drop i lines))
              = Suc (length (filter (lineMatches q) (drop (Suc i) lines)))"
        using True m by (simp add: filter_drop_Suc)
      ultimately show ?thesis
        using True m "1.IH"(1) by (subst searchLoop.simps) simp
    next
      case n: False
      have "filter (lineMatches q) (drop i lines) = filter (lineMatches q) (drop (Suc i) lines)"
        using True n by (simp add: filter_drop_Suc)
      then show ?thesis
        using True n "1.IH"(2) by (subst searchLoop.simps) simp
    qed
  qed
qed

lemma matchesSpaced_drop: "matchesSpaced P xs \<Longrightarrow> matchesSpaced P (drop n xs)"
proof (induction xs arbitrary: n)
  case Nil
  then show ?case by simp
next
  case (Cons x xs)
  then show ?case by (cases n) simp_all
qed

lemma searchLoop_spaced:
  assumes "matchesSpaced (lineMatches q) (drop i lines)"
    and "int (length results + length (filter (lineMatches q) (drop i lines))) \<le> limit"
  shows "length (searchLoop lines q limit i results)
           = length results + length (filter (lineMatches q) (drop i lines))"
  using assms
proof (induction lines q limit i results rule: searchLoop.induct)
  case (1 lines q limit i results)
  show ?case
  proof (cases "i < length lines")
    case False
    then show ?thesis by (subst searchLoop.simps) simp
  next
    case il: True
    have d: "drop i lines = lines ! i # drop (Suc i) lines"
      using il by (simp add: Cons_nth_drop_Suc)
    have sp: "matchesSpaced (lineMatches q) (drop (Suc i) lines)"
      using "1.prems"(1) d by simp
    show ?thesis
    proof (cases "lineMatches q (lines ! i)")
      case m: True
      have cnt: "length (filter (lineMatches q) (drop i lines))
                  = Suc (length (filter (lineMatches q) (drop (Suc i) lines)))"
        using il m by (simp add: filter_drop_Suc)
      have lim: "int (length results) < limit"
        using "1.prems"(2) cnt by simp
      have none: "filter (lineMatches q) (take contextLines (drop (Suc i) lines)) = []"
        using "1.prems"(1) d m by (simp add: filter_empty_conv list_ex_iff)
      have "filter (lineMatches q) (drop (Suc i) lines)
              = filter (lineMatches q) (take contextLines (drop (Suc i) lines))
                @ filter (lineMatches q) (drop contextLines (drop (Suc i) lines))"
        by (metis append_take_drop_id filter_append)
      then have skip: "filter (lineMatches q) (drop (Suc i) lines)
              = filter (lineMatches q) (drop (i + contextLines + 1) lines)"
        using none by (simp add: add.commute)
      have sp': "matchesSpaced (lineMatches q) (drop (i + contextLines + 1) lines)"
        using matchesSpaced_drop [OF sp, of contextLines] by (simp add: add.commute)
      have "length (searchLoop lines q limit (i + contextLines + 1)
                      (results @ [excerptAt lines i]))
              = length (results @ [excerptAt lines i])
                + length (filter (lineMatches q) (drop (i + contextLines + 1) lines))"
        using "1.IH"(1) il lim m sp' "1.prems"(2) cnt skip by simp
      then show ?thesis
        using il lim m cnt skip by (subst searchLoop.simps) simp
    next
      case n: False
      have cnt: "filter (lineMatches q) (drop i lines)
                   = filter (lineMatches q) (drop (Suc i) lines)"
        using il n by (simp add: filter_drop_Suc)
      show ?thesis
      proof (cases "int (length results) < limit")
        case True
        then show ?thesis
          using "1.IH"(2) il n sp "1.prems"(2) cnt by (subst searchLoop.simps) simp
      next
        case False
        then have "int (length (filter (lineMatches q) (drop i lines))) \<le> 0"
          using "1.prems"(2) by linarith
        then have "length (filter (lineMatches q) (drop i lines)) = 0"
          by simp
        then show ?thesis
          using False by (subst searchLoop.simps) simp
      qed
    qed
  qed
qed

lemma not_spaced_has_match: "\<not> matchesSpaced P xs \<Longrightarrow> filter P xs \<noteq> []"
  by (induction xs) auto

lemma not_spaced_window:
  "\<not> matchesSpaced P xs \<Longrightarrow> matchesSpaced P (drop n xs) \<Longrightarrow> list_ex P (take n xs)"
proof (induction xs arbitrary: n)
  case Nil
  then show ?case by simp
next
  case (Cons x xs)
  show ?case
  proof (cases n)
    case 0
    then show ?thesis using Cons.prems by simp
  next
    case (Suc n')
    show ?thesis
    proof (cases "P x")
      case True
      then show ?thesis using Suc by simp
    next
      case False
      then have "\<not> matchesSpaced P xs"
        using Cons.prems(1) by simp
      then have "list_ex P (take n' xs)"
        using Cons.IH [of n'] Cons.prems(2) Suc by simp
      then show ?thesis using Suc by simp
    qed
  qed
qed

text \<open>
  Two matching lines within \<open>contextLines\<close> of each other cost an excerpt: one of them lies in
  the window the loop skips after an emitted match.
\<close>

lemma searchLoop_crowded:
  assumes "\<not> matchesSpaced (lineMatches q) (drop i lines)"
  shows "length (searchLoop lines q limit i results)
           < length results + length (filter (lineMatches q) (drop i lines))"
  using assms
proof (induction lines q limit i results rule: searchLoop.induct)
  case (1 lines q limit i results)
  let ?P = "lineMatches q"
  have pos: "0 < length (filter ?P (drop i lines))"
    using not_spaced_has_match [OF "1.prems"] by simp
  show ?case
  proof (cases "i < length lines \<and> int (length results) < limit")
    case False
    then have "searchLoop lines q limit i results = results"
      by (subst searchLoop.simps) auto
    then show ?thesis using pos by simp
  next
    case True
    then have il: "i < length lines" by simp
    have d: "drop i lines = lines ! i # drop (Suc i) lines"
      using il by (simp add: Cons_nth_drop_Suc)
    let ?rest = "drop (Suc i) lines"
    show ?thesis
    proof (cases "?P (lines ! i)")
      case m: True
      define j where "j = i + contextLines + 1"
      define W where "W = length (filter ?P (take contextLines ?rest))"
      define K where "K = length (filter ?P (drop j lines))"
      define L where "L = length (searchLoop lines q limit j (results @ [excerptAt lines i]))"
      have farj: "drop j lines = drop contextLines ?rest"
        by (simp add: j_def add.commute)
      have "length (filter ?P ?rest)
              = length (filter ?P (take contextLines ?rest))
                + length (filter ?P (drop contextLines ?rest))"
        by (metis append_take_drop_id filter_append length_append)
      then have split: "length (filter ?P ?rest) = W + K"
        by (simp add: W_def K_def farj)
      have "length (filter ?P (drop i lines)) = Suc (length (filter ?P ?rest))"
        using il m by (simp add: filter_drop_Suc)
      then have cnt: "length (filter ?P (drop i lines)) = Suc (W + K)"
        using split by simp
      have "searchLoop lines q limit i results
              = searchLoop lines q limit j (results @ [excerptAt lines i])"
        using True m by (subst searchLoop.simps) (simp add: j_def)
      then have loop: "length (searchLoop lines q limit i results) = L"
        by (simp add: L_def)
      have atm: "L \<le> Suc (length results) + K"
        using searchLoop_at_most_matches [of lines q limit j "results @ [excerptAt lines i]"]
        by (simp add: L_def K_def)
      have less: "L < Suc (length results) + K" if "\<not> matchesSpaced ?P (drop j lines)"
        using "1.IH"(1) [OF True m] that by (simp add: L_def K_def j_def)
      show ?thesis
      proof (cases "matchesSpaced ?P (drop j lines)")
        case spaced: True
        have "list_ex ?P (take contextLines ?rest)"
        proof (cases "matchesSpaced ?P ?rest")
          case True
          then show ?thesis using "1.prems" d m by simp
        next
          case False
          then show ?thesis using spaced farj by (intro not_spaced_window) simp_all
        qed
        then have "filter ?P (take contextLines ?rest) \<noteq> []"
          by (auto simp: list_ex_iff filter_empty_conv)
        then have "0 < W"
          by (simp add: W_def)
        then show ?thesis
          using loop cnt atm by linarith
      next
        case False
        then have "L < Suc (length results) + K"
          by (rule less)
        then show ?thesis
          using loop cnt by linarith
      qed
    next
      case n: False
      have cnt: "filter ?P (drop i lines) = filter ?P ?rest"
        using il n by (simp add: filter_drop_Suc)
      have "\<not> matchesSpaced ?P ?rest"
        using "1.prems" d n by simp
      then have "length (searchLoop lines q limit (i + 1) results)
                   < length results + length (filter ?P (drop (i + 1) lines))"
        using "1.IH"(2) True n by simp
      moreover have "searchLoop lines q limit i results = searchLoop lines q limit (i + 1) results"
        using True n by (subst searchLoop.simps) simp
      ultimately show ?thesis using cnt by simp
    qed
  qed
qed

text \<open>
  C8. As stated (a query found in \<open>k < limit\<close> lines gives exactly \<open>k\<close> excerpts) the claim
  fails: after a match the scan skips the next three lines, so a second matching line right
  below the first produces no excerpt of its own.
\<close>

theorem search_adjacent_matches_one_excerpt:
  "length (matchingLines (''foo'' @ nl @ ''foo'') ''foo'') = 2
   \<and> length (searchInContent (''foo'' @ nl @ ''foo'') ''foo'' 5) = 1"
  by (simp add: matchingLines_def searchInContent_def searchLoop.simps lineMatches_def
        toLowerCase_def toLowerChar_def nl_def contextLines_def)

text \<open>
  C8, amended. The number of excerpts never exceeds the number of lines in which the query
  occurs as a case-insensitive substring (no padding), and it is empty when the query
  occurs in no line. When the query occurs in \<open>k < limit\<close> lines and no two of these lines
  lie within three lines of each other, exactly \<open>k\<close> excerpts are returned. When two
  matching lines do lie within three lines of each other, fewer than \<open>k\<close> excerpts are
  returned, whatever the limit: a matching line inside the three-line window after an
  emitted match is skipped.
\<close>

theorem search_excerpt_count:
  "length (searchInContent content query limit) \<le> length (matchingLines content query)
   \<and> (matchingLines content query = [] \<longrightarrow> searchInContent content query limit = [])
   \<and> (matchesSpaced (lineMatches (toLowerCase query)) (splitOn CHR 0x0A content)
        \<and> int (length (matchingLines content query)) < limit
      \<longrightarrow> length (searchInContent content query limit)
            = length (matchingLines content query))
   \<and> (\<not> matchesSpaced (lineMatches (toLowerCase query)) (splitOn CHR 0x0A content)
      \<longrightarrow> length (searchInContent content query limit)
            < length (matchingLines content query))"
proof -
  let ?lines = "splitOn CHR 0x0A content" and ?q = "toLowerCase query"
  have le: "length (searchInContent content query limit) \<le> length (matchingLines content query)"
    using searchLoop_at_most_matches [of ?lines ?q limit 0 "[]"]
    by (simp add: searchInContent_def matchingLines_def)
  have eq: "length (searchInContent content query limit) = length (matchingLines content query)"
    if "matchesSpaced (lineMatches ?q) ?lines"
      and "int (length (matchingLines content query)) < limit"
    using searchLoop_spaced [of ?q 0 ?lines "[]" limit] that
    by (simp add: searchInContent_def matchingLines_def)
  have lt: "length (searchInContent content query limit) < length (matchingLines content query)"
    if "\<not> matchesSpaced (lineMatches ?q) ?lines"
    using searchLoop_crowded [of ?q 0 ?lines limit "[]"] that
    by (simp add: searchInContent_def matchingLines_def)
  show ?thesis
    using le eq lt by auto
qed

theorem search_excerpt_count_witness:
  "matchesSpaced (lineMatches (toLowerCase ''Foo''))
     (splitOn CHR 0x0A (''foo'' @ nl @ ''a'' @ nl @ ''b'' @ nl @ ''c'' @ nl @ ''FOO''))
   \<and> int (length (matchingLines (''foo'' @ nl @ ''a'' @ nl @ ''b'' @ nl @ ''c'' @ nl @ ''FOO'')
              ''Foo'')) < 5
   \<and> length (searchInContent (''foo'' @ nl @ ''a'' @ nl @ ''b'' @ nl @ ''c'' @ nl @ ''FOO'')
              ''Foo'' 5) = 2
   \<and> \<not> matchesSpaced (lineMatches (toLowerCase ''Foo''))
     (splitOn CHR 0x0A (''foo'' @ nl @ ''a'' @ nl @ ''b'' @ nl @ ''FOO''))
   \<and> length (matchingLines (''foo'' @ nl @ ''a'' @ nl @ ''b'' @ nl @ ''FOO'') ''Foo'') = 2
   \<and> length (searchInContent (''foo'' @ nl @ ''a'' @ nl @ ''b'' @ nl @ ''FOO'') ''Foo'' 5) < 2
   \<and> searchInContent (''foo'' @ nl @ ''a'' @ nl @ ''b'' @ nl @ ''FOO'') ''Foo'' 5
       = [''```'' @ nl @ ''foo'' @ nl @ ''a'' @ nl @ ''b'' @ nl @ ''FOO'' @ nl @ ''```'']
   \<and> matchingLines (''foo'' @ nl @ ''a'') ''zzz'' = []
   \<and> searchInContent (''foo'' @ nl @ ''a'') ''zzz'' 5 = []"
proof -
  let ?c = "''foo'' @ nl @ ''a'' @ nl @ ''b'' @ nl @ ''c'' @ nl @ ''FOO''"
  let ?d = "''foo'' @ nl @ ''a'' @ nl @ ''b'' @ nl @ ''FOO''"
  note ev = matchingLines_def lineMatches_def toLowerCase_def toLowerChar_def nl_def
    contextLines_def
  have m: "matchingLines ?c ''Foo'' = [''foo'', ''FOO'']"
    by (simp add: ev)
  have s: "matchesSpaced (lineMatches (toLowerCase ''Foo'')) (splitOn CHR 0x0A ?c)"
    by (simp add: ev)
  have md: "matchingLines ?d ''Foo'' = [''foo'', ''FOO'']"
    by (simp add: ev)
  have sd: "\<not> matchesSpaced (lineMatches (toLowerCase ''Foo'')) (splitOn CHR 0x0A ?d)"
    by (simp add: ev)
  have ed: "searchInContent ?d ''Foo'' 5
              = [''```'' @ nl @ ''foo'' @ nl @ ''a'' @ nl @ ''b'' @ nl @ ''FOO'' @ nl @ ''```'']"
    by (simp add: searchInContent_def searchLoop.simps excerptAt_def ev)
  have z: "matchingLines (''foo'' @ nl @ ''a'') ''zzz'' = []"
    by (simp add: ev)
  from search_excerpt_count [of ?c "''Foo''" 5] s m
  have a: "length (searchInContent ?c ''Foo'' 5) = 2" by simp
  from search_excerpt_count [of ?d "''Foo''" 5] sd md
  have d: "length (searchInContent ?d ''Foo'' 5) < 2" by simp
  from search_excerpt_count [of "''foo'' @ nl @ ''a''" "''zzz''" 5] z
  have b: "searchInContent (''foo'' @ nl @ ''a'') ''zzz'' 5 = []" by simp
  from s m sd md d ed z a b show ?thesis by simp
qed

section \<open>Boundary checker\<close>

lemma splitOn_nonempty: "splitOn c s \<noteq> []"
  by (induction s) (auto split: list.splits)

lemma splitOn_append_sep: "splitOn c (s @ c # t) = splitOn c s @ splitOn c t"
  using splitOn_nonempty [of c]
  by (induction s) (auto split: list.splits)

lemma joinWith_snoc:
  "segs \<noteq> [] \<Longrightarrow> joinWith s (segs @ [x]) = joinWith s segs @ s @ x"
  by (induction s segs rule: joinWith.induct) auto

lemma startsWith_take: "startsWith s p = (take (length p) s = p)"
  by (induction s p rule: startsWith.induct) auto

lemma splitOn_append_plain:
  "c \<notin> set t \<Longrightarrow>
     splitOn c (s @ t) = butlast (splitOn c s) @ [last (splitOn c s) @ t]"
proof (induction s)
  case Nil
  then show ?case by (simp add: splitOn_no_sep)
next
  case (Cons a s)
  then show ?case
    using splitOn_nonempty [of c s] by (auto split: list.splits)
qed

lemma joinWith_nonempty: "l \<noteq> [] \<Longrightarrow> joinWith s (xs @ [l]) \<noteq> []"
proof (induction xs)
  case Nil
  then show ?case by simp
next
  case (Cons a xs)
  then show ?case by (cases xs) simp_all
qed

lemma joinWith_last_append:
  "joinWith s (ss @ [l]) @ t = joinWith s (ss @ [l @ t])"
proof (induction ss)
  case Nil
  show ?case by simp
next
  case (Cons a ss)
  then show ?case by (cases ss) simp_all
qed

lemma cleanSeg_x: "cleanSeg ''x''"
  by (simp add: cleanSeg_def)

lemma cleanSeg_sibling: "CHR ''/'' \<notin> set l \<Longrightarrow> cleanSeg (l @ ''-sibling'')"
  by (cases l rule: stripTraversal.cases) (auto simp: cleanSeg_def)

lemma normStep_cleanSeg: "cleanSeg s \<Longrightarrow> normStep a res s = s # res"
  by (simp add: normStep.simps cleanSeg_def)

lemma normStep_empty: "normStep a res [] = res"
  by (simp add: normStep.simps)

text \<open>
  Normalising segments that end in clean ones: the clean segments are appended to what
  the segments before them normalise to.
\<close>

lemma normSegs_clean_tail:
  assumes "\<forall>s \<in> set ys. cleanSeg s"
  shows "normSegs a (xs @ ys @ [[]]) = normSegs a xs @ ys"
proof -
  have "foldl (normStep a) acc ys = rev ys @ acc" for acc
    using assms
    by (induction ys arbitrary: acc) (simp_all add: normStep_cleanSeg)
  then show ?thesis
    by (simp add: normSegs_def normStep_empty)
qed

text \<open>\<open>pathResolve\<close> in terms of the segments of its argument.\<close>

lemma pathResolve_segs:
  assumes "p \<noteq> []"
    and "ab = (hd p = CHR ''/'' \<or> (wd \<noteq> [] \<and> hd wd = CHR ''/''))"
    and "T = (if hd p = CHR ''/'' \<or> wd = [] then [] else splitOn CHR ''/'' wd)"
    and "n = joinWith ''/'' (normSegs (\<not> ab) (T @ splitOn CHR ''/'' p @ [[]]))"
  shows "pathResolve wd p = (if ab then CHR ''/'' # n else if n \<noteq> [] then n else ''.'')"
proof -
  have a: "splitOn CHR ''/'' (p @ ''/'') = splitOn CHR ''/'' p @ [[]]"
    using splitOn_append_sep [of "CHR ''/''" p "[]"] by simp
  have b: "splitOn CHR ''/'' (wd @ CHR ''/'' # p @ ''/'')
             = splitOn CHR ''/'' wd @ splitOn CHR ''/'' p @ [[]]"
    using splitOn_append_sep [of "CHR ''/''" wd "p @ ''/''"] a by simp
  show ?thesis
    using assms(1) unfolding assms(2,3,4)
    by (simp add: pathResolve_def normalizeString_def Let_def a b)
qed

text \<open>
  Two paths that share everything before their last segment, the second continued by
  clean segments, resolve to strings that share everything before that segment.
\<close>

lemma pathResolve_extend:
  assumes "b \<noteq> []" and "splitOn CHR ''/'' b = S @ [l]" and "cleanSeg l"
    and "q \<noteq> []" and "hd q = hd b" and "splitOn CHR ''/'' q = S @ l' # ys"
    and "cleanSeg l'" and "\<forall>s \<in> set ys. cleanSeg s"
  shows "\<exists>pre N. pathResolve wd b = pre @ joinWith ''/'' (N @ [l])
           \<and> pathResolve wd q = pre @ joinWith ''/'' (N @ l' # ys)"
proof -
  define ab where "ab = (hd b = CHR ''/'' \<or> (wd \<noteq> [] \<and> hd wd = CHR ''/''))"
  define T where "T = (if hd b = CHR ''/'' \<or> wd = [] then [] else splitOn CHR ''/'' wd)"
  define N where "N = normSegs (\<not> ab) (T @ S)"
  define pre where "pre = (if ab then ''/'' else [])"
  define nb where "nb = joinWith ''/'' (normSegs (\<not> ab) (T @ splitOn CHR ''/'' b @ [[]]))"
  define nq where "nq = joinWith ''/'' (normSegs (\<not> ab) (T @ splitOn CHR ''/'' q @ [[]]))"
  have abq: "ab = (hd q = CHR ''/'' \<or> (wd \<noteq> [] \<and> hd wd = CHR ''/''))"
    and Tq: "T = (if hd q = CHR ''/'' \<or> wd = [] then [] else splitOn CHR ''/'' wd)"
    by (simp_all add: ab_def T_def assms(5))
  have "normSegs (\<not> ab) (T @ splitOn CHR ''/'' b @ [[]]) = N @ [l]"
    using normSegs_clean_tail [of "[l]" "\<not> ab" "T @ S"] assms(2,3) by (simp add: N_def)
  then have nb: "nb = joinWith ''/'' (N @ [l])"
    by (simp add: nb_def)
  have "normSegs (\<not> ab) (T @ splitOn CHR ''/'' q @ [[]]) = N @ l' # ys"
    using normSegs_clean_tail [of "l' # ys" "\<not> ab" "T @ S"] assms(6,7,8)
    by (simp add: N_def)
  then have nq: "nq = joinWith ''/'' (N @ l' # ys)"
    by (simp add: nq_def)
  have neb: "nb \<noteq> []"
    unfolding nb using assms(3) by (intro joinWith_nonempty) (simp add: cleanSeg_def)
  have neq: "nq \<noteq> []"
  proof (cases ys rule: rev_cases)
    case Nil
    then show ?thesis
      unfolding nq using assms(7) joinWith_nonempty [of l' "''/''" N]
      by (simp add: cleanSeg_def)
  next
    case (snoc zs z)
    then have "z \<noteq> []" using assms(8) by (simp add: cleanSeg_def)
    then show ?thesis
      unfolding nq using snoc joinWith_nonempty [of z "''/''" "N @ l' # zs"] by simp
  qed
  have "pathResolve wd b = (if ab then CHR ''/'' # nb else if nb \<noteq> [] then nb else ''.'')"
    by (rule pathResolve_segs [OF assms(1) ab_def T_def nb_def])
  then have rb: "pathResolve wd b = pre @ joinWith ''/'' (N @ [l])"
    using neb by (simp add: pre_def nb)
  have "pathResolve wd q = (if ab then CHR ''/'' # nq else if nq \<noteq> [] then nq else ''.'')"
    by (rule pathResolve_segs [OF assms(4) abq Tq nq_def])
  then have rq: "pathResolve wd q = pre @ joinWith ''/'' (N @ l' # ys)"
    using neq by (simp add: pre_def nq)
  show ?thesis
    using rb rq by blast
qed

lemma split_last_segment:
  "splitOn CHR ''/'' b = butlast (splitOn CHR ''/'' b) @ [lastSegment b]"
  using splitOn_nonempty [of "CHR ''/''" b] by (simp add: lastSegment_def)

lemma cleanSeg_nonempty_path: "cleanSeg (lastSegment b) \<Longrightarrow> b \<noteq> []"
  by (auto simp: lastSegment_def cleanSeg_def)

lemma within_child:
  assumes "cleanSeg (lastSegment base)"
  shows "isPathWithinBase wd (base @ sep @ ''x'') base"
proof -
  let ?S = "butlast (splitOn CHR ''/'' base)" and ?l = "lastSegment base"
  have ne: "base \<noteq> []"
    using assms by (rule cleanSeg_nonempty_path)
  have sb: "splitOn CHR ''/'' base = ?S @ [?l]"
    by (rule split_last_segment)
  have sq: "splitOn CHR ''/'' (base @ sep @ ''x'') = ?S @ ?l # [''x'']"
    using splitOn_append_sep [of "CHR ''/''" base "''x''"] sb by (simp add: sep_def)
  have hq: "hd (base @ sep @ ''x'') = hd base"
    using ne by simp
  obtain pre N where rb: "pathResolve wd base = pre @ joinWith ''/'' (N @ [?l])"
    and rq: "pathResolve wd (base @ sep @ ''x'') = pre @ joinWith ''/'' (N @ ?l # [''x''])"
    using pathResolve_extend [OF ne sb assms _ hq sq assms, of wd] cleanSeg_x by auto
  have "joinWith ''/'' (N @ ?l # [''x'']) = joinWith ''/'' (N @ [?l]) @ ''/'' @ ''x''"
    using joinWith_snoc [of "N @ [?l]" "''/''" "''x''"] by simp
  then have "pathResolve wd (base @ sep @ ''x'') = pathResolve wd base @ ''/x''"
    using rb rq by simp
  then show ?thesis
    by (simp add: isPathWithinBase_def startsWith_take sep_def)
qed

lemma within_sibling:
  assumes "cleanSeg (lastSegment base)"
  shows "\<not> isPathWithinBase wd (base @ ''-sibling/x'') base"
proof -
  let ?S = "butlast (splitOn CHR ''/'' base)" and ?l = "lastSegment base"
  have ne: "base \<noteq> []"
    using assms by (rule cleanSeg_nonempty_path)
  have sb: "splitOn CHR ''/'' base = ?S @ [?l]"
    by (rule split_last_segment)
  have "splitOn CHR ''/'' (base @ ''-sibling'') = ?S @ [?l @ ''-sibling'']"
    using splitOn_append_plain [of "CHR ''/''" "''-sibling''" base]
    by (simp add: lastSegment_def)
  then have sq: "splitOn CHR ''/'' (base @ ''-sibling/x'') = ?S @ (?l @ ''-sibling'') # [''x'']"
    using splitOn_append_sep [of "CHR ''/''" "base @ ''-sibling''" "''x''"] by simp
  have hq: "hd (base @ ''-sibling/x'') = hd base"
    using ne by simp
  have cl: "cleanSeg (?l @ ''-sibling'')"
    using assms by (intro cleanSeg_sibling) (simp add: cleanSeg_def)
  obtain pre N where rb: "pathResolve wd base = pre @ joinWith ''/'' (N @ [?l])"
    and rq: "pathResolve wd (base @ ''-sibling/x'')
               = pre @ joinWith ''/'' (N @ (?l @ ''-sibling'') # [''x''])"
    using pathResolve_extend [OF ne sb assms _ hq sq cl, of wd] cleanSeg_x by auto
  have "joinWith ''/'' (N @ (?l @ ''-sibling'') # [''x''])
          = joinWith ''/'' (N @ [?l @ ''-sibling'']) @ ''/'' @ ''x''"
    using joinWith_snoc [of "N @ [?l @ ''-sibling'']" "''/''" "''x''"] by simp
  also have "\<dots> = joinWith ''/'' (N @ [?l]) @ ''-sibling'' @ ''/'' @ ''x''"
    using joinWith_last_append [of "''/''" N ?l "''-sibling''"] by simp
  finally have "pathResolve wd (base @ ''-sibling/x'') = pathResolve wd base @ ''-sibling/x''"
    using rb rq by simp
  then show ?thesis
    by (simp add: isPathWithinBase_def startsWith_take sep_def)
qed

text \<open>
  C5. The examples are stated for every base and fail for some: with the root as base the
  child \<^verbatim>\<open>//x\<close> resolves to \<^verbatim>\<open>/x\<close>, which neither equals \<^verbatim>\<open>/\<close> nor starts with \<^verbatim>\<open>//\<close>; and
  with a base written with a trailing slash, \<^verbatim>\<open>/a/\<close>, the path \<^verbatim>\<open>/a/-sibling/x\<close> lies inside
  the resolved base \<^verbatim>\<open>/a\<close>.
\<close>

theorem within_base_examples_fail:
  "\<not> isPathWithinBase ''/srv'' (''/'' @ sep @ ''x'') ''/''
   \<and> isPathWithinBase ''/srv'' (''/a/'' @ ''-sibling/x'') ''/a/''"
  by (simp add: isPathWithinBase_def path_eval sep_def)

text \<open>
  C5, amended. \<open>isPathWithinBase\<close> is true exactly when the resolved candidate equals the
  resolved base or starts with the resolved base followed by the separator. Whenever the
  last segment of the base is an ordinary name (not empty, not \<^verbatim>\<open>.\<close>, not \<^verbatim>\<open>..\<close>; so the base
  is not the root and has no trailing slash), \<^verbatim>\<open>base + sep + "x"\<close> is inside the base and
  \<^verbatim>\<open>base + "-sibling/x"\<close> is outside, for every working directory.
\<close>

theorem within_base_characterisation:
  "(isPathWithinBase wd candidate base \<longleftrightarrow>
      pathResolve wd candidate = pathResolve wd base
      \<or> startsWith (pathResolve wd candidate) (pathResolve wd base @ sep))
   \<and> (cleanSeg (lastSegment base) \<longrightarrow>
        isPathWithinBase wd (base @ sep @ ''x'') base
        \<and> \<not> isPathWithinBase wd (base @ ''-sibling/x'') base)"
  using within_child [of base wd] within_sibling [of base wd]
  by (auto simp: isPathWithinBase_def Let_def)

theorem within_base_characterisation_witness:
  "cleanSeg (lastSegment ''/srv/content'')
   \<and> isPathWithinBase ''/tmp'' (''/srv/content'' @ sep @ ''x'') ''/srv/content''
   \<and> \<not> isPathWithinBase ''/tmp'' (''/srv/content'' @ ''-sibling/x'') ''/srv/content''"
proof -
  have h: "cleanSeg (lastSegment ''/srv/content'')"
    by (simp add: lastSegment_def cleanSeg_def)
  from within_base_characterisation [of "''/tmp''" _ "''/srv/content''"] h
  show ?thesis by blast
qed

end
